theory Spec2Isabelle
  imports Complex_Main
begin

section \<open>Python strings and characters\<close>

text \<open>
  A Python \<^verbatim>\<open>str\<close> is a sequence of code points. It is modelled as a \<^typ>\<open>string\<close>
  whose characters are the code points below 256 (\<^term>\<open>of_char c\<close> is the code point of
  \<^term>\<open>c\<close>), so the model covers the texts made of ASCII and Latin-1 characters.
  The character tests below are those of Python's \<^verbatim>\<open>str\<close> methods on that range.
\<close>

definition py_isalpha :: "char \<Rightarrow> bool" where
  \<comment> \<open>\<^verbatim>\<open>c.isalpha()\<close>: the letters (general category L).\<close>
  "py_isalpha c = (let n = (of_char c :: nat) in
     (65 \<le> n \<and> n \<le> 90) \<or> (97 \<le> n \<and> n \<le> 122) \<or> n = 170 \<or> n = 181 \<or> n = 186 \<or>
     (192 \<le> n \<and> n \<le> 214) \<or> (216 \<le> n \<and> n \<le> 246) \<or> (248 \<le> n \<and> n \<le> 255))"

definition py_isupper :: "char \<Rightarrow> bool" where
  \<comment> \<open>\<^verbatim>\<open>c.isupper()\<close> on one character: the uppercase letters.\<close>
  "py_isupper c = (let n = (of_char c :: nat) in
     (65 \<le> n \<and> n \<le> 90) \<or> (192 \<le> n \<and> n \<le> 214) \<or> (216 \<le> n \<and> n \<le> 222))"

definition py_isdecimal :: "char \<Rightarrow> bool" where
  \<comment> \<open>The decimal digits (category Nd): what \<^verbatim>\<open>\d\<close>, \<^verbatim>\<open>int()\<close> and \<^verbatim>\<open>float()\<close> read.\<close>
  "py_isdecimal c = (let n = (of_char c :: nat) in 48 \<le> n \<and> n \<le> 57)"

definition py_isdigit :: "char \<Rightarrow> bool" where
  \<comment> \<open>\<^verbatim>\<open>c.isdigit()\<close>: the decimal digits and the superscripts two, three and one
      (code points 178, 179, 185), which are digits but not decimals.\<close>
  "py_isdigit c = (let n = (of_char c :: nat) in
     (48 \<le> n \<and> n \<le> 57) \<or> n = 178 \<or> n = 179 \<or> n = 185)"

definition py_isspace :: "char \<Rightarrow> bool" where
  \<comment> \<open>The white space that \<^verbatim>\<open>strip()\<close> and \<^verbatim>\<open>split()\<close> remove.\<close>
  "py_isspace c = (let n = (of_char c :: nat) in
     (9 \<le> n \<and> n \<le> 13) \<or> (28 \<le> n \<and> n \<le> 32) \<or> n = 133 \<or> n = 160)"

definition digit_val :: "char \<Rightarrow> int" where
  "digit_val c = of_char c - 48"

datatype exn =
    Exception string   \<comment> \<open>\<^verbatim>\<open>raise Exception(message)\<close> of the source\<close>
  | TypeError          \<comment> \<open>raised by Python for an operator applied to unsupported operands\<close>
  | ValueError         \<comment> \<open>raised by \<^verbatim>\<open>int()\<close> and \<^verbatim>\<open>float()\<close> for text that is no numeral\<close>
  | KeyError           \<comment> \<open>raised by a dictionary lookup of a missing key\<close>
  | UnboundLocalError  \<comment> \<open>raised for a local variable read before assignment\<close>
  | ZeroDivisionError  \<comment> \<open>raised by Python's own division by zero\<close>
  | RecursionError     \<comment> \<open>raised by Python for a call beyond its limit on the depth of recursion\<close>

definition max_str_digits :: nat where
  \<comment> \<open>The number of digits that \<^verbatim>\<open>int()\<close> converts at most: the default of
      \<^verbatim>\<open>sys.get_int_max_str_digits()\<close> in CPython 3.11 and later, which the source does not
      change.\<close>
  "max_str_digits = 4300"

definition py_int :: "string \<Rightarrow> exn + int" where
  \<comment> \<open>\<^verbatim>\<open>int(s)\<close> for a string \<^verbatim>\<open>s\<close> of digit characters, the only strings the source
      passes: the decimal value, and \<^verbatim>\<open>ValueError\<close> when a character is no decimal or
      there are more than \<^verbatim>\<open>max_str_digits\<close> characters.\<close>
  "py_int s = (if s \<noteq> [] \<and> list_all py_isdecimal s \<and> length s \<le> max_str_digits
               then Inr (foldl (\<lambda>acc c. acc * 10 + digit_val c) 0 s)
               else Inl ValueError)"

function py_str_nat :: "nat \<Rightarrow> string" where
  "py_str_nat n = (if n < 10 then [char_of (48 + n)]
                   else py_str_nat (n div 10) @ [char_of (48 + n mod 10)])"
  by pat_completeness auto
termination
  by (relation "measure id") auto

definition py_str_int :: "int \<Rightarrow> string" where
  \<comment> \<open>\<^verbatim>\<open>str(i)\<close> of an integer.\<close>
  "py_str_int i = (if i < 0 then CHR ''-'' # py_str_nat (nat (- i)) else py_str_nat (nat i))"

section \<open>Cell naming\<close>

text \<open>
  \<^verbatim>\<open>indexToColForm\<close>: the \<^verbatim>\<open>while\<close> loop with its two variables; Python's \<^verbatim>\<open>//\<close> and
  \<^verbatim>\<open>%\<close> on integers are \<open>div\<close> and \<open>mod\<close> on \<^typ>\<open>int\<close>.
\<close>

function indexToColForm_loop :: "int \<Rightarrow> string \<Rightarrow> string" where
  "indexToColForm_loop index columnName =
     (if index \<ge> 0
      then indexToColForm_loop ((index div 26) - 1)
             (char_of (of_char (CHR ''A'') + (index mod 26)) # columnName)
      else columnName)"
  by pat_completeness auto
termination
  by (relation "measure (\<lambda>(index, columnName). nat (index + 1))") auto

definition indexToColForm :: "int \<Rightarrow> string" where
  "indexToColForm index = indexToColForm_loop index ''''"

definition getCellName :: "int \<Rightarrow> int \<Rightarrow> string" where
  "getCellName colIndex rowIndex = indexToColForm colIndex @ py_str_int (rowIndex + 1)"

text \<open>
  \<^verbatim>\<open>isCellReference\<close>: the loop counting the leading uppercase letters, then the test of
  the rest. The source returns \<^verbatim>\<open>row and row.isdigit() and int(row) > 0\<close>, which is the
  empty string when \<^verbatim>\<open>row\<close> is empty; its only caller tests the truth value, which is
  what the model returns. \<^verbatim>\<open>int(row)\<close> can raise, so the result is a sum.
\<close>

fun colCount_loop :: "string \<Rightarrow> nat \<Rightarrow> nat" where
  "colCount_loop [] colCount = colCount"
| "colCount_loop (char # rest) colCount =
     (if py_isalpha char \<and> py_isupper char then colCount_loop rest (colCount + 1)
      else colCount)"

definition isCellReference :: "string \<Rightarrow> exn + bool" where
  "isCellReference op =
     (if op = [] then Inr False
      else let colCount = colCount_loop op 0 in
        if colCount = 0 then Inr False
        else let row = drop colCount op in
          if row = [] then Inr False
          else if \<not> list_all py_isdigit row then Inr False
          else (case py_int row of Inl e \<Rightarrow> Inl e | Inr n \<Rightarrow> Inr (n > 0)))"

definition py_strip :: "string \<Rightarrow> string" where
  \<comment> \<open>\<^verbatim>\<open>s.strip()\<close>\<close>
  "py_strip s = rev (dropWhile py_isspace (rev (dropWhile py_isspace s)))"

fun py_split_on :: "char \<Rightarrow> string \<Rightarrow> string list" where
  \<comment> \<open>\<^verbatim>\<open>s.split(sep)\<close> for a separator of one character: empty fields are kept.\<close>
  "py_split_on sep [] = [[]]"
| "py_split_on sep (c # cs) =
     (if c = sep then [] # py_split_on sep cs
      else (case py_split_on sep cs of [] \<Rightarrow> [[c]] | w # ws \<Rightarrow> (c # w) # ws))"

fun py_split_loop :: "string \<Rightarrow> string \<Rightarrow> string list" where
  "py_split_loop [] word = (if word = [] then [] else [word])"
| "py_split_loop (c # cs) word =
     (if py_isspace c then (if word = [] then py_split_loop cs [] else word # py_split_loop cs [])
      else py_split_loop cs (word @ [c]))"

definition py_split :: "string \<Rightarrow> string list" where
  \<comment> \<open>\<^verbatim>\<open>s.split()\<close>: the maximal runs of characters that are not white space.\<close>
  "py_split s = py_split_loop s []"

fun py_join :: "string \<Rightarrow> string list \<Rightarrow> string" where
  \<comment> \<open>\<^verbatim>\<open>sep.join(xs)\<close>\<close>
  "py_join sep [] = []"
| "py_join sep [x] = x"
| "py_join sep (x # y # ys) = x @ sep @ py_join sep (y # ys)"

fun file_lines :: "string \<Rightarrow> string \<Rightarrow> string list" where
  \<comment> \<open>Iterating over a file opened in text mode: the lines with their terminator, where
      \<^verbatim>\<open>\n\<close>, \<^verbatim>\<open>\r\<close> and \<^verbatim>\<open>\r\n\<close> each end a line and are read as \<^verbatim>\<open>\n\<close>. The second
      argument is the line read so far.\<close>
  "file_lines [] line = (if line = [] then [] else [line])"
| "file_lines (c # cs) line =
     (if c = CHR 0x0A then (line @ [CHR 0x0A]) # file_lines cs []
      else if c = CHR 0x0D then
        (case cs of
           [] \<Rightarrow> [line @ [CHR 0x0A]]
         | d # ds \<Rightarrow> if d = CHR 0x0A then (line @ [CHR 0x0A]) # file_lines ds []
                     else (line @ [CHR 0x0A]) # file_lines cs [])
      else file_lines cs (line @ [c]))"

section \<open>Python values\<close>

text \<open>
  The values the evaluator handles: floats, strings (the empty string marks a blank cell),
  and the two objects that lines 139 and 140 of the source build: \<^verbatim>\<open>queue.popleft\<close>
  without a call is the bound method itself, and \<^verbatim>\<open>queue.popleft,\<close> with its trailing comma
  is a tuple of one element holding it.

  Floats are idealised as rationals: arithmetic is exact, and rounding, infinities and NaN
  are not modelled.
\<close>

datatype pyval =
    PFloat rat
  | PStr string
  | PTuple "pyval list"
  | PBuiltinMethod

fun py_add :: "pyval \<Rightarrow> pyval \<Rightarrow> exn + pyval" where
  "py_add (PFloat x) (PFloat y) = Inr (PFloat (x + y))"
| "py_add (PStr s) (PStr t) = Inr (PStr (s @ t))"
| "py_add (PTuple xs) (PTuple ys) = Inr (PTuple (xs @ ys))"
| "py_add _ _ = Inl TypeError"

fun py_sub :: "pyval \<Rightarrow> pyval \<Rightarrow> exn + pyval" where
  "py_sub (PFloat x) (PFloat y) = Inr (PFloat (x - y))"
| "py_sub _ _ = Inl TypeError"

fun py_mul :: "pyval \<Rightarrow> pyval \<Rightarrow> exn + pyval" where
  \<comment> \<open>A string or a tuple is repeated by an integer only; there are no integers here.\<close>
  "py_mul (PFloat x) (PFloat y) = Inr (PFloat (x * y))"
| "py_mul _ _ = Inl TypeError"

fun py_truediv :: "pyval \<Rightarrow> pyval \<Rightarrow> exn + pyval" where
  "py_truediv (PFloat x) (PFloat y) = (if y = 0 then Inl ZeroDivisionError else Inr (PFloat (x / y)))"
| "py_truediv _ _ = Inl TypeError"

fun py_eq_zero :: "pyval \<Rightarrow> bool" where
  \<comment> \<open>\<^verbatim>\<open>b == 0\<close>: a float is compared by value; any other object differs from \<^verbatim>\<open>0\<close>.\<close>
  "py_eq_zero (PFloat y) = (y = 0)"
| "py_eq_zero _ = False"

definition py_str :: "(pyval \<Rightarrow> string) \<Rightarrow> pyval \<Rightarrow> string" where
  \<comment> \<open>\<^verbatim>\<open>str(v)\<close>: a string is itself; any other object is printed by its \<^verbatim>\<open>repr\<close>, which
      is a parameter (the shortest decimal text of a float is not modelled).\<close>
  "py_str repr v = (case v of PStr s \<Rightarrow> s | _ \<Rightarrow> repr v)"

text \<open>
  The pattern \<^verbatim>\<open>^[+-]?\d*(\.\d+)?$\<close> of line 146. Its parts leave no choice to the
  matcher: a leading sign must be taken, then all the decimal digits, and what is left is
  nothing or a dot followed by decimal digits only. \<^verbatim>\<open>$\<close> also matches before a
  newline that ends the text.
\<close>

definition numeral_core :: "string \<Rightarrow> bool" where
  "numeral_core s =
     (let unsigned = (case s of [] \<Rightarrow> []
                      | c # cs \<Rightarrow> if c = CHR ''+'' \<or> c = CHR ''-'' then cs else s);
          fraction = dropWhile py_isdecimal unsigned
      in fraction = [] \<or> (hd fraction = CHR ''.'' \<and> tl fraction \<noteq> [] \<and> list_all py_isdecimal (tl fraction)))"

definition numeral_match :: "string \<Rightarrow> bool" where
  "numeral_match s =
     (numeral_core s \<or> (s \<noteq> [] \<and> last s = CHR 0x0A \<and> numeral_core (butlast s)))"

definition py_float :: "string \<Rightarrow> exn + rat" where
  \<comment> \<open>\<^verbatim>\<open>float(s)\<close> for a text that matches the pattern above, the only texts the source
      passes: white space around it is ignored, and a text without any digit is no numeral.\<close>
  "py_float s =
     (let t = py_strip s;
          negative = (t \<noteq> [] \<and> hd t = CHR ''-'');
          unsigned = (case t of [] \<Rightarrow> []
                      | c # cs \<Rightarrow> if c = CHR ''+'' \<or> c = CHR ''-'' then cs else t);
          whole = takeWhile py_isdecimal unsigned;
          fraction = drop 1 (dropWhile py_isdecimal unsigned);
          magnitude = of_int (foldl (\<lambda>acc c. acc * 10 + digit_val c) 0 (whole @ fraction))
                        / (10 ^ length fraction)
      in if whole = [] \<and> fraction = [] then Inl ValueError
         else Inr (if negative then - magnitude else magnitude))"

section \<open>The evaluator\<close>

text \<open>
  The fields of a \<^verbatim>\<open>SpreadsheetEval\<close> object that change. The two limits are set by
  \<^verbatim>\<open>__init__\<close> and never assigned again; the file names stand for the text read and the
  text written, which \<open>main\<close> below takes and returns.
\<close>

definition maxTokensPerCell :: nat where
  "maxTokensPerCell = 100"

definition maxCells :: nat where
  "maxCells = 500000"

record SpreadsheetEval =
  grid :: "string list list"
  exprMap :: "string \<rightharpoonup> string list"
  valMap :: "string \<rightharpoonup> pyval"

definition init :: SpreadsheetEval where
  "init = \<lparr>grid = [], exprMap = Map.empty, valMap = Map.empty\<rparr>"

fun parseInput_cells ::
  "SpreadsheetEval \<Rightarrow> int \<Rightarrow> int \<Rightarrow> string list \<Rightarrow> string list \<Rightarrow> SpreadsheetEval \<times> string list" where
  "parseInput_cells self rowIndex colIndex [] rowCells = (self, rowCells)"
| "parseInput_cells self rowIndex colIndex (expression # cells) rowCells =
     (let cell = getCellName colIndex rowIndex;
          rowCells = rowCells @ [cell];
          expression = py_strip expression
      in if expression = []
         then parseInput_cells (self\<lparr>valMap := (valMap self)(cell \<mapsto> PStr '''')\<rparr>)
                rowIndex (colIndex + 1) cells rowCells
         else parseInput_cells (self\<lparr>exprMap := (exprMap self)(cell \<mapsto> py_split expression)\<rparr>)
                rowIndex (colIndex + 1) cells rowCells)"

fun parseInput_rows ::
  "SpreadsheetEval \<Rightarrow> int \<Rightarrow> nat \<Rightarrow> string list \<Rightarrow> exn + SpreadsheetEval" where
  "parseInput_rows self rowIndex cellCount [] = Inr self"
| "parseInput_rows self rowIndex cellCount (row # rows) =
     (let cells = py_split_on (CHR '','') (py_strip row);
          cellCount = cellCount + length cells
      in if cellCount > maxCells
         then Inl (Exception (''Input file contains more than maximum number of allowed cells (''
                     @ py_str_nat maxCells @ '')''))
         else (case parseInput_cells self rowIndex 0 cells [] of
                 (self', rowCells) \<Rightarrow>
                   parseInput_rows (self'\<lparr>grid := grid self' @ [rowCells]\<rparr>)
                     (rowIndex + 1) cellCount rows))"

definition parseInput :: "SpreadsheetEval \<Rightarrow> string \<Rightarrow> exn + SpreadsheetEval" where
  \<comment> \<open>The second argument is the text of the input file.\<close>
  "parseInput self inputText = parseInput_rows self 0 0 (file_lines inputText [])"

definition calculate :: "pyval \<Rightarrow> pyval \<Rightarrow> string \<Rightarrow> exn + pyval" where
  "calculate a b operator =
     (if operator = ''+'' then py_add a b
      else if operator = ''-'' then py_sub a b
      else if operator = ''*'' then py_mul a b
      else if operator = ''/'' then
        (if py_eq_zero b then Inl (Exception ''Division by zero'') else py_truediv a b)
      else Inl UnboundLocalError)"

text \<open>
  \<^verbatim>\<open>evaluateDFS\<close> and its \<^verbatim>\<open>for\<close> loop. The object and the \<^verbatim>\<open>visiting\<close> set are mutated
  in place by the source and are returned here, also when an exception is raised, since
  an exception undoes nothing. The deque is a list, appended to on the right; the loop
  function takes the tokens left to process.

  \<^verbatim>\<open>evaluateDFS\<close> calls itself for every reference, and Python limits the depth of
  recursion (to 1000 frames, a limit the source never changes): the call that exceeds the
  limit raises \<^verbatim>\<open>RecursionError\<close>, which \<^verbatim>\<open>main\<close> catches like every exception. The first
  argument is what is left of that limit, counted in nested calls of \<^verbatim>\<open>evaluateDFS\<close>: the
  number of them that the interpreter still allows below the current one. How many that
  is at the call made by \<^verbatim>\<open>evaluate\<close> depends on the interpreter and on how the program
  was started, so it is a parameter of the run; under the default limit it is less than
  1000. The calls that an \<^verbatim>\<open>evaluateDFS\<close> makes to other functions need frames as well
  (\<^verbatim>\<open>isCellReference\<close>, \<^verbatim>\<open>calculate\<close>, the matching of the regular expression): they
  are taken to fit whenever the \<^verbatim>\<open>evaluateDFS\<close> itself does, so that within a few frames
  of the limit the code can raise \<^verbatim>\<open>RecursionError\<close> at a token that the model still
  processes. The recursion is on this argument, so every call returns: the result is
  never \<open>None\<close> (lemma \<open>evaluateDFS_returns\<close> below).
\<close>

fun evaluateDFS ::
  "nat \<Rightarrow> SpreadsheetEval \<Rightarrow> string \<Rightarrow> string set
     \<Rightarrow> ((exn + pyval) \<times> SpreadsheetEval \<times> string set) option"
and evaluateDFS_loop ::
  "nat \<Rightarrow> SpreadsheetEval \<Rightarrow> string \<Rightarrow> string list \<Rightarrow> string list \<Rightarrow> string set \<Rightarrow> pyval list
     \<Rightarrow> ((exn + pyval list) \<times> SpreadsheetEval \<times> string set) option"
where
  "evaluateDFS depth self cell visiting =
     (let queue = [] in
      case valMap self cell of
        Some v \<Rightarrow> Some (Inr v, self, visiting)
      | None \<Rightarrow>
          if cell \<in> visiting
          then Some (Inl (Exception (''Circular reference at '' @ cell)), self, visiting)
          else (case exprMap self cell of
                  None \<Rightarrow> Some (Inr (PStr ''''), self, visiting)
                | Some ops \<Rightarrow>
                    (case evaluateDFS_loop depth self cell ops ops (insert cell visiting) queue of
                       None \<Rightarrow> None
                     | Some (Inl e, self', visiting') \<Rightarrow> Some (Inl e, self', visiting')
                     | Some (Inr queue', self', visiting') \<Rightarrow>
                         if length queue' \<noteq> 1
                         then Some (Inl (Exception (''Invalid expression in '' @ cell)), self', visiting')
                         else let res = last queue';
                                  self'' = self'\<lparr>valMap := (valMap self')(cell \<mapsto> res)\<rparr>
                              in if cell \<in> visiting'
                                 then Some (Inr res, self'', visiting' - {cell})
                                 else Some (Inl KeyError, self'', visiting'))))"
| "evaluateDFS_loop depth self cell ops [] visiting queue = Some (Inr queue, self, visiting)"
| "evaluateDFS_loop depth self cell ops (op # rest) visiting queue =
     (if length ops > maxTokensPerCell
      then Some (Inl (Exception (''Expression too long in '' @ cell @ '' - max of ''
                   @ py_str_nat maxTokensPerCell @ '' tokens in a cell'')), self, visiting)
      else if op \<in> {''+'', ''-'', ''*'', ''/''} then
        (if length queue < 2
         then Some (Inl (Exception (''Need at least 1 operand for '' @ op @ '' in '' @ cell)),
                    self, visiting)
         else let a = PTuple [PBuiltinMethod];
                  b = PBuiltinMethod
              in (case calculate a b op of
                    Inl e \<Rightarrow> Some (Inl e, self, visiting)
                  | Inr res \<Rightarrow> evaluateDFS_loop depth self cell ops rest visiting (queue @ [res])))
      else (case isCellReference op of
              Inl e \<Rightarrow> Some (Inl e, self, visiting)
            | Inr True \<Rightarrow>
                (case depth of
                   0 \<Rightarrow> Some (Inl RecursionError, self, visiting)
                 | Suc depth' \<Rightarrow>
                     (case evaluateDFS depth' self op visiting of
                        None \<Rightarrow> None
                      | Some (Inl e, self', visiting') \<Rightarrow> Some (Inl e, self', visiting')
                      | Some (Inr val, self', visiting') \<Rightarrow>
                          evaluateDFS_loop depth self' cell ops rest visiting' (queue @ [val])))
            | Inr False \<Rightarrow>
                if numeral_match op then
                  (case py_float op of
                     Inl e \<Rightarrow> Some (Inl (Exception (''Error evaluating number '' @ op @ '' in '' @ cell)),
                                   self, visiting)
                   | Inr x \<Rightarrow> evaluateDFS_loop depth self cell ops rest visiting (queue @ [PFloat x]))
                else Some (Inl (Exception (''Invalid token '' @ [CHR 0x27] @ op @ [CHR 0x27]
                             @ '' in '' @ cell)), self, visiting)))"

fun evaluate_row ::
  "nat \<Rightarrow> SpreadsheetEval \<Rightarrow> string list \<Rightarrow> (exn + SpreadsheetEval) option" where
  "evaluate_row depth self [] = Some (Inr self)"
| "evaluate_row depth self (cell # row) =
     (if exprMap self cell \<noteq> None
      then (case evaluateDFS depth self cell {} of
              None \<Rightarrow> None
            | Some (Inl e, self', visiting') \<Rightarrow> Some (Inl e)
            | Some (Inr v, self', visiting') \<Rightarrow> evaluate_row depth self' row)
      else evaluate_row depth self row)"

fun evaluate_rows ::
  "nat \<Rightarrow> SpreadsheetEval \<Rightarrow> string list list \<Rightarrow> (exn + SpreadsheetEval) option" where
  "evaluate_rows depth self [] = Some (Inr self)"
| "evaluate_rows depth self (row # rows) =
     (case evaluate_row depth self row of
        None \<Rightarrow> None
      | Some (Inl e) \<Rightarrow> Some (Inl e)
      | Some (Inr self') \<Rightarrow> evaluate_rows depth self' rows)"

definition evaluate :: "nat \<Rightarrow> SpreadsheetEval \<Rightarrow> (exn + SpreadsheetEval) option" where
  "evaluate depth self = evaluate_rows depth self (grid self)"

fun writeOutput_cells :: "(pyval \<Rightarrow> string) \<Rightarrow> SpreadsheetEval \<Rightarrow> string list \<Rightarrow> exn + string list" where
  "writeOutput_cells repr self [] = Inr []"
| "writeOutput_cells repr self (cell # row) =
     (case valMap self cell of
        None \<Rightarrow> Inl KeyError
      | Some v \<Rightarrow> (case writeOutput_cells repr self row of
                    Inl e \<Rightarrow> Inl e
                  | Inr cells \<Rightarrow> Inr (py_str repr v # cells)))"

fun writeOutput_rows :: "(pyval \<Rightarrow> string) \<Rightarrow> SpreadsheetEval \<Rightarrow> string list list \<Rightarrow> exn + string" where
  "writeOutput_rows repr self [] = Inr []"
| "writeOutput_rows repr self (row # rows) =
     (case writeOutput_cells repr self row of
        Inl e \<Rightarrow> Inl e
      | Inr cells \<Rightarrow> (case writeOutput_rows repr self rows of
                        Inl e \<Rightarrow> Inl e
                      | Inr out \<Rightarrow> Inr (py_join '','' cells @ [CHR 0x0A] @ out)))"

definition writeOutput :: "(pyval \<Rightarrow> string) \<Rightarrow> SpreadsheetEval \<Rightarrow> exn + string" where
  \<comment> \<open>The text written to the output file.\<close>
  "writeOutput repr self = writeOutput_rows repr self (grid self)"

definition main :: "(pyval \<Rightarrow> string) \<Rightarrow> nat \<Rightarrow> string \<Rightarrow> (exn + string) option" where
  \<comment> \<open>A run on the text of the input file: the text of the output file, or the exception
      that \<^verbatim>\<open>main\<close> catches and prints. The console messages are left out. The second
      argument is the number of nested calls of \<^verbatim>\<open>evaluateDFS\<close> that Python's limit on the
      depth of recursion allows below a call made by \<^verbatim>\<open>evaluate\<close>.\<close>
  "main repr depth inputText =
     (case parseInput init inputText of
        Inl e \<Rightarrow> Some (Inl e)
      | Inr self \<Rightarrow>
          (case evaluate depth self of
             None \<Rightarrow> None
           | Some (Inl e) \<Rightarrow> Some (Inl e)
           | Some (Inr self') \<Rightarrow> Some (writeOutput repr self')))"

text \<open>
  The value of a label read as a bijective base-26 numeral (digits \<open>A\<close> = 1 to \<open>Z\<close> = 26),
  following the specification's words; used to state what \<^const>\<open>indexToColForm\<close> computes.
\<close>

definition bijective_base26_value :: "string \<Rightarrow> int" where
  "bijective_base26_value s = foldl (\<lambda>acc c. acc * 26 + (of_char c - 64)) 0 s"

text \<open>
  What an evaluation may change in the object: the grid and the expression map stay, and
  the value map gets new entries only, for cells that have an expression and are not in
  the given set (the cells being visited).
\<close>

definition no_overwrite :: "SpreadsheetEval \<Rightarrow> string set \<Rightarrow> SpreadsheetEval \<Rightarrow> bool" where
  "no_overwrite self visiting self' =
     (grid self' = grid self \<and> exprMap self' = exprMap self \<and>
      (\<forall>c. valMap self' c = valMap self c \<or>
           (valMap self c = None \<and> exprMap self c \<noteq> None \<and> c \<notin> visiting)))"

text \<open>
  The value map as \<^verbatim>\<open>parseInput\<close> leaves it and evaluation keeps it: a cell without an
  expression has no entry or the empty string.
\<close>

definition blanks_empty :: "SpreadsheetEval \<Rightarrow> bool" where
  "blanks_empty self =
     (\<forall>c. exprMap self c = None \<longrightarrow> valMap self c = None \<or> valMap self c = Some (PStr ''''))"

text \<open>
  The specification writes an output as its rows joined by newlines. \<^verbatim>\<open>writeOutput\<close> ends
  every row with a newline; the text it writes is read in that notation by taking its rows
  and joining them.
\<close>

definition rows_joined :: "string \<Rightarrow> string" where
  "rows_joined out = py_join [CHR 0x0A] (butlast (py_split_on (CHR 0x0A) out))"

definition some_repr :: "pyval \<Rightarrow> string" where
  \<comment> \<open>Stands for Python's \<^verbatim>\<open>repr\<close> in the closed examples, none of which prints a float.\<close>
  "some_repr v = ''<repr>''"

definition sheet ::
  "string list list \<Rightarrow> (string \<times> string list) list \<Rightarrow> (string \<times> pyval) list \<Rightarrow> SpreadsheetEval" where
  \<comment> \<open>The object with the given grid and the given entries of its two maps.\<close>
  "sheet g es vs = \<lparr>grid = g, exprMap = map_of es, valMap = map_of vs\<rparr>"

text \<open>
  Two grammars of numerals, as sets of words. The first is the language of the pattern of
  line 146: an optional sign, any number of decimal digits, and optionally a dot followed
  by one or more decimal digits. The second follows the wording of the specification: an
  optional sign, one or more digits, and optionally a dot followed by digits.
\<close>

definition pattern_numeral :: "string \<Rightarrow> bool" where
  "pattern_numeral s =
     (\<exists>sign whole fraction. s = sign @ whole @ fraction \<and> sign \<in> {[], ''+'', ''-''}
        \<and> list_all py_isdecimal whole
        \<and> (fraction = [] \<or> (\<exists>ds. fraction = CHR ''.'' # ds \<and> ds \<noteq> [] \<and> list_all py_isdecimal ds)))"

definition specified_numeral :: "string \<Rightarrow> bool" where
  "specified_numeral s =
     (\<exists>sign whole fraction. s = sign @ whole @ fraction \<and> sign \<in> {[], ''+'', ''-''}
        \<and> whole \<noteq> [] \<and> list_all py_isdecimal whole
        \<and> (fraction = [] \<or> (\<exists>ds. fraction = CHR ''.'' # ds \<and> ds \<noteq> [] \<and> list_all py_isdecimal ds)))"

text \<open>
  A cycle of references through first tokens: the cells \<open>cs\<close> are distinct and have no
  value yet, each is a reference, and the expression of each starts with the reference to
  the next one (the last refers to the first) and has at most
  \<^const>\<open>maxTokensPerCell\<close> tokens.
\<close>

definition first_token_cycle :: "SpreadsheetEval \<Rightarrow> string list \<Rightarrow> bool" where
  "first_token_cycle self cs =
     (cs \<noteq> [] \<and> distinct cs \<and>
      (\<forall>i < length cs. valMap self (cs ! i) = None \<and> isCellReference (cs ! i) = Inr True
          \<and> (\<exists>rest. exprMap self (cs ! i) = Some (cs ! (Suc i mod length cs) # rest)
                     \<and> length rest < maxTokensPerCell)))"

text \<open>
  The cell that \<^verbatim>\<open>evaluate\<close> resolves first: the first cell of the grid, row by row, that
  has an expression.
\<close>

definition first_evaluated :: "SpreadsheetEval \<Rightarrow> string option" where
  "first_evaluated self = find (\<lambda>cell. exprMap self cell \<noteq> None) (concat (grid self))"

text \<open>
  The reference graph: a cell refers to a token of its expression that is a cell
  reference. A reference cycle is a list of cells, not empty, each referring to the next
  and the last to the first.
\<close>

definition refers :: "SpreadsheetEval \<Rightarrow> string \<Rightarrow> string \<Rightarrow> bool" where
  "refers self c t = (\<exists>ops. exprMap self c = Some ops \<and> t \<in> set ops \<and> isCellReference t = Inr True)"

definition reference_cycle :: "SpreadsheetEval \<Rightarrow> string list \<Rightarrow> bool" where
  "reference_cycle self cs =
     (cs \<noteq> [] \<and> (\<forall>i < length cs. refers self (cs ! i) (cs ! (Suc i mod length cs))))"

text \<open>
  The values computed so far respect the references: a cell with a value refers only to
  cells that have a value or no expression, and each of them has a smaller rank.
\<close>

definition ranked :: "SpreadsheetEval \<Rightarrow> (string \<Rightarrow> nat) \<Rightarrow> bool" where
  "ranked self rank =
     (\<forall>c t. refers self c t \<and> valMap self c \<noteq> None \<and> exprMap self t \<noteq> None
        \<longrightarrow> valMap self t \<noteq> None \<and> rank t < rank c)"

text \<open>An object before evaluation: no cell with an expression has a value.\<close>

definition unevaluated :: "SpreadsheetEval \<Rightarrow> bool" where
  "unevaluated self = (\<forall>c. exprMap self c \<noteq> None \<longrightarrow> valMap self c = None)"

text \<open>
  While \<^verbatim>\<open>parseInput\<close> reads the cells: the names given so far are those of the cells before
  the current row and column, a cell has got a value or an expression but not both, and
  the cells with an expression are in the grid or in the row being built.
\<close>

definition names_before :: "int \<Rightarrow> int \<Rightarrow> string set" where
  "names_before rowIndex colIndex =
     {n. \<exists>c r. n = getCellName c r \<and> 0 \<le> c \<and> 0 \<le> r \<and> (r < rowIndex \<or> (r = rowIndex \<and> c < colIndex))}"

definition parsed_so_far :: "SpreadsheetEval \<Rightarrow> int \<Rightarrow> int \<Rightarrow> string list \<Rightarrow> bool" where
  "parsed_so_far self rowIndex colIndex rowCells =
     (dom (valMap self) \<union> dom (exprMap self) \<subseteq> names_before rowIndex colIndex
      \<and> unevaluated self
      \<and> dom (exprMap self) \<subseteq> set (concat (grid self)) \<union> set rowCells)"

section \<open>Column labels\<close>

lemma indexToColForm_loop_append:
  "indexToColForm_loop i acc = indexToColForm_loop i [] @ acc"
proof (induction "nat (i + 1)" arbitrary: i acc rule: less_induct)
  case less
  show ?case
  proof (cases "i \<ge> 0")
    case True
    let ?c = "char_of (of_char (CHR ''A'') + (i mod 26))"
    let ?j = "i div 26 - 1"
    have lt: "nat (?j + 1) < nat (i + 1)" using True by simp
    have a: "indexToColForm_loop i acc = indexToColForm_loop ?j (?c # acc)"
      using True by simp
    have b: "indexToColForm_loop i [] = indexToColForm_loop ?j [?c]"
      using True by simp
    show ?thesis
      unfolding a b less[OF lt, of "?c # acc"] less[OF lt, of "[?c]"] by simp
  next
    case False
    then show ?thesis by simp
  qed
qed

lemma indexToColForm_neg: "i < 0 \<Longrightarrow> indexToColForm i = []"
  by (simp add: indexToColForm_def)

lemma indexToColForm_rec:
  "0 \<le> i \<Longrightarrow> indexToColForm i = indexToColForm (i div 26 - 1) @ [char_of (65 + i mod 26)]"
  unfolding indexToColForm_def
  by (subst indexToColForm_loop.simps, subst indexToColForm_loop_append) simp

lemma of_char_letter:
  "0 \<le> (k::int) \<Longrightarrow> k < 26 \<Longrightarrow> (of_char (char_of (65 + k)) :: int) = 65 + k"
  by simp

lemma value_indexToColForm:
  "-1 \<le> i \<Longrightarrow> bijective_base26_value (indexToColForm i) = i + 1"
proof (induction "nat (i + 1)" arbitrary: i rule: less_induct)
  case less
  show ?case
  proof (cases "i \<ge> 0")
    case True
    let ?j = "i div 26 - 1"
    have lt: "nat (?j + 1) < nat (i + 1)" using True by simp
    have j: "-1 \<le> ?j" using True by simp
    have m: "0 \<le> i mod 26" "i mod 26 < 26" by simp_all
    have "bijective_base26_value (indexToColForm i) = (?j + 1) * 26 + (i mod 26 + 1)"
      using less(1)[OF lt j] of_char_letter[OF m]
      by (simp add: indexToColForm_rec[OF True] bijective_base26_value_def)
    then show ?thesis by simp
  next
    case False
    with less(2) have "i = -1" by simp
    then show ?thesis by (simp add: indexToColForm_neg bijective_base26_value_def)
  qed
qed

lemma letters_indexToColForm:
  "c \<in> set (indexToColForm i) \<Longrightarrow> 65 \<le> (of_char c :: int) \<and> (of_char c :: int) \<le> 90"
proof (induction "nat (i + 1)" arbitrary: i rule: less_induct)
  case less
  show ?case
  proof (cases "i \<ge> 0")
    case True
    let ?j = "i div 26 - 1"
    have lt: "nat (?j + 1) < nat (i + 1)" using True by simp
    have m: "0 \<le> i mod 26" "i mod 26 < 26" by simp_all
    from less(2) have "c \<in> set (indexToColForm ?j) \<or> c = char_of (65 + i mod 26)"
      by (auto simp: indexToColForm_rec[OF True])
    then show ?thesis
    proof
      assume "c \<in> set (indexToColForm ?j)"
      then show ?thesis using less(1)[OF lt] by blast
    next
      assume "c = char_of (65 + i mod 26)"
      then show ?thesis using of_char_letter[OF m] m by simp
    qed
  next
    case False
    then show ?thesis using less(2) by (simp add: indexToColForm_neg)
  qed
qed

section \<open>Cell references\<close>

lemma colCount_loop_takeWhile:
  "colCount_loop s n = n + length (takeWhile (\<lambda>c. py_isalpha c \<and> py_isupper c) s)"
  by (induction s arbitrary: n) auto

lemma decimal_is_digit: "py_isdecimal c \<Longrightarrow> py_isdigit c"
  by (simp add: py_isdecimal_def py_isdigit_def Let_def)

lemma drop_length_takeWhile: "drop (length (takeWhile P s)) s = dropWhile P s"
  by (induction s) auto

text \<open>
  When \<^const>\<open>isCellReference\<close> answers yes, and when it raises: the token is split into
  its longest prefix of uppercase letters and the rest.
\<close>

lemma isCellReference_True_iff:
  "isCellReference tok = Inr True \<longleftrightarrow>
     takeWhile (\<lambda>c. py_isalpha c \<and> py_isupper c) tok \<noteq> []
     \<and> dropWhile (\<lambda>c. py_isalpha c \<and> py_isupper c) tok \<noteq> []
     \<and> list_all py_isdecimal (dropWhile (\<lambda>c. py_isalpha c \<and> py_isupper c) tok)
     \<and> length (dropWhile (\<lambda>c. py_isalpha c \<and> py_isupper c) tok) \<le> max_str_digits
     \<and> 0 < foldl (\<lambda>acc c. acc * 10 + digit_val c) 0
             (dropWhile (\<lambda>c. py_isalpha c \<and> py_isupper c) tok)"
  by (auto simp: isCellReference_def colCount_loop_takeWhile drop_length_takeWhile py_int_def
        Let_def list_all_iff decimal_is_digit split: if_splits)

lemma isCellReference_raises_iff:
  "isCellReference tok = Inl e \<longleftrightarrow>
     e = ValueError
     \<and> takeWhile (\<lambda>c. py_isalpha c \<and> py_isupper c) tok \<noteq> []
     \<and> dropWhile (\<lambda>c. py_isalpha c \<and> py_isupper c) tok \<noteq> []
     \<and> list_all py_isdigit (dropWhile (\<lambda>c. py_isalpha c \<and> py_isupper c) tok)
     \<and> (list_all py_isdecimal (dropWhile (\<lambda>c. py_isalpha c \<and> py_isupper c) tok)
          \<longrightarrow> max_str_digits < length (dropWhile (\<lambda>c. py_isalpha c \<and> py_isupper c) tok))"
  by (auto simp: isCellReference_def colCount_loop_takeWhile drop_length_takeWhile py_int_def
        Let_def list_all_iff decimal_is_digit split: if_splits)

lemma isCellReference_not_operator:
  "isCellReference op = Inr True \<Longrightarrow> op \<notin> {''+'', ''-'', ''*'', ''/''}"
  by (auto simp: isCellReference_def py_isalpha_def py_isupper_def Let_def)

section \<open>Evaluating closed examples\<close>

lemmas run_simps = main_def parseInput_def init_def evaluate_def writeOutput_def Let_def
  py_isspace_def maxCells_def py_split_def py_strip_def maxTokensPerCell_def isCellReference_def
  py_isalpha_def py_isupper_def py_isdigit_def py_int_def max_str_digits_def py_isdecimal_def
  digit_val_def
  numeral_match_def numeral_core_def py_float_def calculate_def py_str_def evaluateDFS.simps

lemma getCellName_A1: "getCellName 0 0 = ''A1''"
  by code_simp

lemma getCellName_B1: "getCellName 1 0 = ''B1''"
  by code_simp

lemma getCellName_A2: "getCellName 0 1 = ''A2''"
  by code_simp

lemmas cell_names = getCellName_A1 getCellName_B1 getCellName_A2

section \<open>Operators\<close>

text \<open>
  Lines 139 and 140 never call \<^verbatim>\<open>popleft\<close>: whatever is on the deque, \<^verbatim>\<open>calculate\<close>
  receives a tuple and a bound method, and each of the four operators raises on them.
\<close>

lemma calculate_tuple_method:
  "op \<in> {''+'', ''-'', ''*'', ''/''} \<Longrightarrow>
   calculate (PTuple [PBuiltinMethod]) PBuiltinMethod op = Inl TypeError"
  by (auto simp: calculate_def)

lemma operator_raises_TypeError:
  "length ops \<le> maxTokensPerCell \<Longrightarrow> op \<in> {''+'', ''-'', ''*'', ''/''} \<Longrightarrow> 2 \<le> length queue \<Longrightarrow>
   evaluateDFS_loop depth self cell ops (op # rest) visiting queue = Some (Inl TypeError, self, visiting)"
  using calculate_tuple_method[of op] by (simp del: insert_iff)

text \<open>
  The test for a zero divisor in \<^verbatim>\<open>calculate\<close>: given a right operand equal to zero it
  raises an exception whose message is a fixed text. In a run the right operand is the
  bound method of line 140, which differs from zero.
\<close>

lemma calculate_division_by_zero:
  "py_eq_zero b \<Longrightarrow> calculate a b ''/'' = Inl (Exception ''Division by zero'')"
  by (simp add: calculate_def)

section \<open>What an evaluation changes\<close>

lemma no_overwrite_refl: "no_overwrite self visiting self"
  by (simp add: no_overwrite_def)

lemma no_overwrite_trans:
  "no_overwrite a V b \<Longrightarrow> no_overwrite b V c \<Longrightarrow> no_overwrite a V c"
  unfolding no_overwrite_def by (metis option.distinct(1))

lemma no_overwrite_mono:
  "no_overwrite a V b \<Longrightarrow> W \<subseteq> V \<Longrightarrow> no_overwrite a W b"
  unfolding no_overwrite_def by blast

declare evaluateDFS.simps [simp del]

lemma evaluateDFS_loop_frame:
  assumes IH: "\<And>d self cell visiting r self' visiting'.
      d < depth \<Longrightarrow> evaluateDFS d self cell visiting = Some (r, self', visiting')
      \<Longrightarrow> no_overwrite self visiting self' \<and> (\<not> isl r \<longrightarrow> visiting' = visiting)
        \<and> visiting' \<subseteq> visiting \<union> dom (exprMap self)"
  shows "evaluateDFS_loop depth self cell ops rest visiting queue = Some (r, self', visiting')
      \<Longrightarrow> no_overwrite self visiting self' \<and> (\<not> isl r \<longrightarrow> visiting' = visiting)
        \<and> visiting' \<subseteq> visiting \<union> dom (exprMap self)"
proof (induction rest arbitrary: self visiting queue)
  case Nil
  then show ?case by (auto simp: no_overwrite_refl)
next
  case (Cons op rest)
  show ?case
  proof (cases "length ops > maxTokensPerCell")
    case True
    with Cons.prems show ?thesis by (auto simp: no_overwrite_refl)
  next
    case short: False
    show ?thesis
    proof (cases "op \<in> {''+'', ''-'', ''*'', ''/''}")
      case True
      with short Cons.prems Cons.IH show ?thesis
        by (auto simp: no_overwrite_refl Let_def split: if_splits sum.splits simp del: insert_iff)
    next
      case notop: False
      show ?thesis
      proof (cases "isCellReference op")
        case (Inl e)
        with short notop Cons.prems show ?thesis by (auto simp: no_overwrite_refl)
      next
        case (Inr b)
        show ?thesis
        proof (cases b)
          case False
          with Inr short notop Cons.prems Cons.IH show ?thesis
            by (auto simp: no_overwrite_refl split: if_splits sum.splits)
        next
          case True
          show ?thesis
          proof (cases depth)
            case 0
            with True Inr short notop Cons.prems show ?thesis
              by (auto simp: no_overwrite_refl)
          next
            case (Suc d)
            with True Inr short notop Cons.prems obtain r1 self1 visiting1 where
              n: "evaluateDFS d self op visiting = Some (r1, self1, visiting1)"
              by (auto split: option.splits)
            have f1: "no_overwrite self visiting self1" "\<not> isl r1 \<longrightarrow> visiting1 = visiting"
              "visiting1 \<subseteq> visiting \<union> dom (exprMap self)"
              using IH[OF _ n] Suc by auto
            show ?thesis
            proof (cases r1)
              case (Inl e)
              with n Suc True \<open>isCellReference op = Inr b\<close> short notop Cons.prems
              have "r = Inl e" "self' = self1" "visiting' = visiting1" by (auto simp: evaluateDFS.simps)
              with f1 Inl show ?thesis by auto
            next
              case (Inr val)
              with f1 have v: "visiting1 = visiting" by simp
              from Inr n Suc True \<open>isCellReference op = Inr b\<close> short notop Cons.prems
              have "evaluateDFS_loop depth self1 cell ops rest visiting (queue @ [val]) = Some (r, self', visiting')"
                by (simp add: v)
              from Cons.IH[OF this] have g: "no_overwrite self1 visiting self'"
                "\<not> isl r \<longrightarrow> visiting' = visiting"
                "visiting' \<subseteq> visiting \<union> dom (exprMap self1)" by auto
              have "exprMap self1 = exprMap self" using f1(1) by (simp add: no_overwrite_def)
              with g no_overwrite_trans[OF f1(1) g(1)] show ?thesis by simp
            qed
          qed
        qed
      qed
    qed
  qed
qed

lemma evaluateDFS_frame:
  "evaluateDFS depth self cell visiting = Some (r, self', visiting')
   \<Longrightarrow> no_overwrite self visiting self' \<and> (\<not> isl r \<longrightarrow> visiting' = visiting)
        \<and> visiting' \<subseteq> visiting \<union> dom (exprMap self)"
proof (induction depth arbitrary: self cell visiting r self' visiting' rule: less_induct)
  case (less depth)
  have loop: "no_overwrite s V s' \<and> (\<not> isl q' \<longrightarrow> V' = V) \<and> V' \<subseteq> V \<union> dom (exprMap s)"
    if "evaluateDFS_loop depth s c ops rest V q = Some (q', s', V')" for s c ops rest V q q' s' V'
  proof (rule evaluateDFS_loop_frame[OF _ that])
    fix d self cell visiting r self' visiting'
    assume "d < depth" "evaluateDFS d self cell visiting = Some (r, self', visiting')"
    then show "no_overwrite self visiting self' \<and> (\<not> isl r \<longrightarrow> visiting' = visiting)
        \<and> visiting' \<subseteq> visiting \<union> dom (exprMap self)"
      by (rule less.IH)
  qed
  note less.prems[unfolded evaluateDFS.simps[of depth self cell visiting]]
  note prem = this
  show ?case
  proof (cases "valMap self cell")
    case (Some v)
    with prem show ?thesis by (auto simp: no_overwrite_refl)
  next
    case None
    show ?thesis
    proof (cases "cell \<in> visiting")
      case True
      with None prem show ?thesis by (auto simp: no_overwrite_refl)
    next
      case nv: False
      show ?thesis
      proof (cases "exprMap self cell")
        case n2: None
        with None nv prem show ?thesis by (auto simp: no_overwrite_refl)
      next
        case (Some ops)
        with None nv prem obtain r1 self1 visiting1 where
          l: "evaluateDFS_loop depth self cell ops ops (insert cell visiting) [] = Some (r1, self1, visiting1)"
          by (auto split: option.splits)
        from loop[OF l] have f: "no_overwrite self (insert cell visiting) self1"
          and v: "\<not> isl r1 \<longrightarrow> visiting1 = insert cell visiting"
          and sub: "visiting1 \<subseteq> insert cell visiting \<union> dom (exprMap self)" by auto
        from f have f': "no_overwrite self visiting self1"
          by (rule no_overwrite_mono) auto
        have w: "no_overwrite self visiting (self1\<lparr>valMap := (valMap self1)(cell \<mapsto> x)\<rparr>)" for x
          using f' None nv Some unfolding no_overwrite_def by auto
        show ?thesis
        proof (cases r1)
          case (Inl e)
          with l Some None nv prem f' sub show ?thesis by auto
        next
          case (Inr q)
          with v have "visiting1 = insert cell visiting" by simp
          with Inr l Some None nv prem f' w show ?thesis
            by (auto simp: Let_def split: if_splits)
        qed
      qed
    qed
  qed
qed

section \<open>Memoisation\<close>

lemma evaluateDFS_memo:
  "valMap self cell = Some v \<Longrightarrow> evaluateDFS depth self cell visiting = Some (Inr v, self, visiting)"
  by (simp add: evaluateDFS.simps)

lemma evaluateDFS_keeps_entry:
  assumes "evaluateDFS depth self other visiting = Some (r, self', visiting')"
    and "valMap self cell = Some v"
  shows "valMap self' cell = Some v"
  using evaluateDFS_frame[OF assms(1)] assms(2) unfolding no_overwrite_def
  by (metis option.distinct(1))

lemma evaluateDFS_stores:
  assumes "evaluateDFS depth self cell visiting = Some (Inr v, self', visiting')"
    and "exprMap self cell \<noteq> None"
  shows "valMap self' cell = Some v"
  using assms
  by (auto simp: evaluateDFS.simps Let_def split: option.splits if_splits sum.splits)

section \<open>Blank cells\<close>

lemma evaluateDFS_blanks_empty:
  assumes "evaluateDFS depth self cell visiting = Some (r, self', visiting')" and "blanks_empty self"
  shows "blanks_empty self'"
  using evaluateDFS_frame[OF assms(1)] assms(2) unfolding no_overwrite_def blanks_empty_def
  by metis

lemma parseInput_cells_values:
  "parseInput_cells self rowIndex colIndex cells rowCells = (self', rowCells')
   \<Longrightarrow> (\<forall>c v. valMap self c = Some v \<longrightarrow> v = PStr '''')
   \<Longrightarrow> (\<forall>c v. valMap self' c = Some v \<longrightarrow> v = PStr '''')"
proof (induction cells arbitrary: self colIndex rowCells)
  case Nil
  then show ?case by simp
next
  case (Cons expression cells)
  show ?case
  proof (cases "py_strip expression = []")
    case True
    let ?self = "self\<lparr>valMap := (valMap self)(getCellName colIndex rowIndex \<mapsto> PStr '''')\<rparr>"
    from Cons.prems(1) True have
      "parseInput_cells ?self rowIndex (colIndex + 1) cells (rowCells @ [getCellName colIndex rowIndex])
         = (self', rowCells')"
      by (simp add: Let_def)
    moreover have "\<forall>c v. valMap ?self c = Some v \<longrightarrow> v = PStr ''''"
      using Cons.prems(2) by simp
    ultimately show ?thesis by (rule Cons.IH)
  next
    case False
    let ?self = "self\<lparr>exprMap := (exprMap self)(getCellName colIndex rowIndex \<mapsto> py_split (py_strip expression))\<rparr>"
    from Cons.prems(1) False have
      "parseInput_cells ?self rowIndex (colIndex + 1) cells (rowCells @ [getCellName colIndex rowIndex])
         = (self', rowCells')"
      by (simp add: Let_def)
    moreover have "\<forall>c v. valMap ?self c = Some v \<longrightarrow> v = PStr ''''"
      using Cons.prems(2) by simp
    ultimately show ?thesis by (rule Cons.IH)
  qed
qed

lemma parseInput_rows_values:
  "parseInput_rows self rowIndex cellCount rows = Inr self'
   \<Longrightarrow> (\<forall>c v. valMap self c = Some v \<longrightarrow> v = PStr '''')
   \<Longrightarrow> (\<forall>c v. valMap self' c = Some v \<longrightarrow> v = PStr '''')"
proof (induction rows arbitrary: self rowIndex cellCount)
  case Nil
  then show ?case by simp
next
  case (Cons row rows)
  let ?cells = "py_split_on (CHR '','') (py_strip row)"
  obtain self1 rowCells where c: "parseInput_cells self rowIndex 0 ?cells [] = (self1, rowCells)"
    by (cases "parseInput_cells self rowIndex 0 ?cells []") auto
  from Cons.prems(1) c have
    "parseInput_rows (self1\<lparr>grid := grid self1 @ [rowCells]\<rparr>) (rowIndex + 1)
        (cellCount + length ?cells) rows = Inr self'"
    by (simp add: Let_def split: if_splits)
  moreover have "\<forall>c v. valMap (self1\<lparr>grid := grid self1 @ [rowCells]\<rparr>) c = Some v \<longrightarrow> v = PStr ''''"
    using parseInput_cells_values[OF c Cons.prems(2)] by simp
  ultimately show ?case by (rule Cons.IH)
qed

lemma parseInput_blanks_empty:
  assumes "parseInput init inputText = Inr self"
  shows "blanks_empty self"
proof -
  have "\<forall>c v. valMap self c = Some v \<longrightarrow> v = PStr ''''"
    using assms parseInput_rows_values[of init 0 0 "file_lines inputText []" self]
    by (simp add: parseInput_def init_def)
  then show ?thesis
    unfolding blanks_empty_def by (metis option.exhaust)
qed

section \<open>The token limit\<close>

lemma py_str_nat_100: "py_str_nat 100 = ''100''"
  by code_simp

lemma too_long_step:
  "length ops > 100 \<Longrightarrow>
   evaluateDFS_loop depth self cell ops (op # rest) visiting queue =
     Some (Inl (Exception (''Expression too long in '' @ cell @ '' - max of 100 tokens in a cell'')),
           self, visiting)"
  by (simp add: maxTokensPerCell_def py_str_nat_100 del: py_str_nat.simps)

section \<open>Reference cycles\<close>

lemma evaluateDFS_reentered:
  "valMap self cell = None \<Longrightarrow> cell \<in> visiting \<Longrightarrow>
   evaluateDFS depth self cell visiting =
     Some (Inl (Exception (''Circular reference at '' @ cell)), self, visiting)"
  by (simp add: evaluateDFS.simps)

lemma reference_step:
  assumes "length (op # rest) \<le> maxTokensPerCell" and "isCellReference op = Inr True"
    and "evaluateDFS depth self op (insert cell visiting) = Some (Inl e, self', visiting')"
    and "valMap self cell = None" and "cell \<notin> visiting" and "exprMap self cell = Some (op # rest)"
  shows "evaluateDFS (Suc depth) self cell visiting = Some (Inl e, self', visiting')"
proof -
  have "op \<notin> {''+'', ''-'', ''*'', ''/''}"
    using assms(2) by (rule isCellReference_not_operator)
  then have "evaluateDFS_loop (Suc depth) self cell (op # rest) (op # rest) (insert cell visiting) []
      = Some (Inl e, self', visiting')"
    using assms(1,2,3) by (simp del: insert_iff)
  then show ?thesis
    using assms(4,5,6) by (simp add: evaluateDFS.simps)
qed

lemma reference_chain:
  assumes ne: "cs \<noteq> []" and d: "distinct cs" and dj: "set cs \<inter> visiting = {}"
    and cells: "\<forall>i < length cs. valMap self (cs ! i) = None \<and> isCellReference (cs ! i) = Inr True
            \<and> (\<exists>rest. exprMap self (cs ! i) = Some (cs ! (Suc i mod length cs) # rest)
                       \<and> length rest < maxTokensPerCell)"
  shows "j < length cs \<Longrightarrow> length cs - j \<le> depth \<Longrightarrow>
         evaluateDFS depth self (cs ! j) (visiting \<union> set (take j cs)) =
           Some (Inl (Exception (''Circular reference at '' @ hd cs)), self, visiting \<union> set cs)"
proof (induction "length cs - j" arbitrary: j depth)
  case 0
  then show ?case by simp
next
  case (Suc k)
  let ?n = "length cs"
  let ?c = "cs ! j"
  let ?V = "visiting \<union> set (take j cs)"
  let ?nxt = "cs ! (Suc j mod ?n)"
  let ?E = "Exception (''Circular reference at '' @ hd cs)"
  from Suc.prems obtain dp where dp: "depth = Suc dp" by (cases depth) auto
  from cells Suc.prems(1) obtain rest where
    v: "valMap self ?c = None" and
    e: "exprMap self ?c = Some (?nxt # rest)" and
    l: "length rest < maxTokensPerCell" by blast
  have nxt_lt: "Suc j mod ?n < ?n" using ne by (intro mod_less_divisor) simp
  have r: "isCellReference ?nxt = Inr True" using cells nxt_lt by blast
  have cV: "?c \<notin> ?V"
  proof -
    have "?c \<in> set cs" using Suc.prems(1) by simp
    then have "?c \<notin> visiting" using dj by blast
    moreover have "?c \<notin> set (take j cs)"
      using d Suc.prems(1) by (metis distinct_take id_take_nth_drop not_distinct_conv_prefix)
    ultimately show ?thesis by simp
  qed
  have ins: "insert ?c ?V = visiting \<union> set (take (Suc j) cs)"
    using Suc.prems(1) by (simp add: take_Suc_conv_app_nth)
  have inner: "evaluateDFS dp self ?nxt (insert ?c ?V) = Some (Inl ?E, self, visiting \<union> set cs)"
  proof (cases "Suc j < ?n")
    case True
    then have m: "Suc j mod ?n = Suc j" by simp
    have "evaluateDFS dp self (cs ! Suc j) (visiting \<union> set (take (Suc j) cs)) =
            Some (Inl ?E, self, visiting \<union> set cs)"
      using Suc.hyps(1)[of "Suc j" dp] Suc.hyps(2) Suc.prems True dp by simp
    then show ?thesis by (simp add: m ins)
  next
    case False
    with Suc.prems(1) have last: "Suc j = ?n" by simp
    then have m: "Suc j mod ?n = 0" by simp
    have hd: "cs ! 0 = hd cs" using ne by (simp add: hd_conv_nth)
    have all: "insert ?c ?V = visiting \<union> set cs" using ins last by simp
    have "hd cs \<in> set cs" using ne by simp
    then have "hd cs \<in> insert ?c ?V" using all by blast
    moreover have "valMap self (hd cs) = None" using cells ne hd by (metis length_greater_0_conv)
    ultimately have "evaluateDFS dp self (hd cs) (insert ?c ?V) = Some (Inl ?E, self, insert ?c ?V)"
      by (rule evaluateDFS_reentered[rotated])
    then show ?thesis by (simp add: m hd all)
  qed
  have "evaluateDFS (Suc dp) self ?c ?V = Some (Inl ?E, self, visiting \<union> set cs)"
    by (rule reference_step[OF _ r inner v cV e]) (use l in simp)
  then show ?case by (simp add: dp)
qed

text \<open>
  A chain of references longer than the limit allows: the call beyond the limit raises
  \<^verbatim>\<open>RecursionError\<close>, with the cells entered so far left in the visiting set.
\<close>

lemma reference_beyond_limit:
  assumes "length (op # rest) \<le> maxTokensPerCell" and "isCellReference op = Inr True"
    and "valMap self cell = None" and "cell \<notin> visiting" and "exprMap self cell = Some (op # rest)"
  shows "evaluateDFS 0 self cell visiting = Some (Inl RecursionError, self, insert cell visiting)"
proof -
  have "op \<notin> {''+'', ''-'', ''*'', ''/''}"
    using assms(2) by (rule isCellReference_not_operator)
  then have "evaluateDFS_loop 0 self cell (op # rest) (op # rest) (insert cell visiting) []
      = Some (Inl RecursionError, self, insert cell visiting)"
    using assms(1,2) by (simp del: insert_iff)
  then show ?thesis
    using assms(3,4,5) by (simp add: evaluateDFS.simps)
qed

lemma reference_chain_beyond_limit:
  assumes d: "distinct cs" and dj: "set cs \<inter> visiting = {}"
    and cells: "\<forall>i < length cs. valMap self (cs ! i) = None \<and> isCellReference (cs ! i) = Inr True
            \<and> (\<exists>rest. exprMap self (cs ! i) = Some (cs ! (Suc i mod length cs) # rest)
                       \<and> length rest < maxTokensPerCell)"
  shows "j + depth < length cs \<Longrightarrow>
         evaluateDFS depth self (cs ! j) (visiting \<union> set (take j cs)) =
           Some (Inl RecursionError, self, visiting \<union> set (take (Suc (j + depth)) cs))"
proof (induction depth arbitrary: j)
  case 0
  let ?n = "length cs"
  let ?c = "cs ! j"
  let ?V = "visiting \<union> set (take j cs)"
  let ?nxt = "cs ! (Suc j mod ?n)"
  from 0 have j: "j < ?n" by simp
  from cells j obtain rest where
    v: "valMap self ?c = None" and
    e: "exprMap self ?c = Some (?nxt # rest)" and
    l: "length rest < maxTokensPerCell" by blast
  have "0 < ?n" using j by (cases cs) simp_all
  then have nxt_lt: "Suc j mod ?n < ?n" by (rule mod_less_divisor)
  have r: "isCellReference ?nxt = Inr True" using cells nxt_lt by blast
  have cV: "?c \<notin> ?V"
  proof -
    have "?c \<in> set cs" using j by simp
    then have "?c \<notin> visiting" using dj by blast
    moreover have "?c \<notin> set (take j cs)"
      using d j by (metis distinct_take id_take_nth_drop not_distinct_conv_prefix)
    ultimately show ?thesis by simp
  qed
  have ins: "insert ?c ?V = visiting \<union> set (take (Suc j) cs)"
    using j by (simp add: take_Suc_conv_app_nth)
  have "evaluateDFS 0 self ?c ?V = Some (Inl RecursionError, self, insert ?c ?V)"
    by (rule reference_beyond_limit[OF _ r v cV e]) (use l in simp)
  then show ?case by (simp add: ins)
next
  case (Suc dp)
  let ?n = "length cs"
  let ?c = "cs ! j"
  let ?V = "visiting \<union> set (take j cs)"
  let ?nxt = "cs ! (Suc j mod ?n)"
  let ?W = "visiting \<union> set (take (Suc (j + Suc dp)) cs)"
  from Suc.prems have j: "j < ?n" and sj: "Suc j < ?n" by simp_all
  from cells j obtain rest where
    v: "valMap self ?c = None" and
    e: "exprMap self ?c = Some (?nxt # rest)" and
    l: "length rest < maxTokensPerCell" by blast
  have m: "Suc j mod ?n = Suc j" using sj by simp
  have r: "isCellReference ?nxt = Inr True" using cells sj m by simp
  have cV: "?c \<notin> ?V"
  proof -
    have "?c \<in> set cs" using j by simp
    then have "?c \<notin> visiting" using dj by blast
    moreover have "?c \<notin> set (take j cs)"
      using d j by (metis distinct_take id_take_nth_drop not_distinct_conv_prefix)
    ultimately show ?thesis by simp
  qed
  have ins: "insert ?c ?V = visiting \<union> set (take (Suc j) cs)"
    using j by (simp add: take_Suc_conv_app_nth)
  have "evaluateDFS dp self (cs ! Suc j) (visiting \<union> set (take (Suc j) cs)) =
          Some (Inl RecursionError, self, visiting \<union> set (take (Suc (Suc j + dp)) cs))"
    using Suc.IH[of "Suc j"] Suc.prems by simp
  then have inner: "evaluateDFS dp self ?nxt (insert ?c ?V) = Some (Inl RecursionError, self, ?W)"
    by (simp add: m ins)
  show ?case
    by (rule reference_step[OF _ r inner v cV e]) (use l in simp)
qed

section \<open>Numeral tokens\<close>

lemma decimal_not_sign_dot:
  "py_isdecimal c \<Longrightarrow> c \<noteq> CHR ''+'' \<and> c \<noteq> CHR ''-'' \<and> c \<noteq> CHR ''.''"
  by (auto simp: py_isdecimal_def Let_def)

lemma dot_not_decimal: "\<not> py_isdecimal (CHR ''.'')"
  by (simp add: py_isdecimal_def)

lemma dropWhile_decimal_append:
  "list_all py_isdecimal whole \<Longrightarrow> fraction = [] \<or> \<not> py_isdecimal (hd fraction) \<Longrightarrow>
   dropWhile py_isdecimal (whole @ fraction) = fraction \<and> takeWhile py_isdecimal (whole @ fraction) = whole"
  by (induction whole) (cases fraction; auto)+

text \<open>The deterministic reading of the pattern in \<^const>\<open>numeral_core\<close> accepts its language.\<close>

lemma numeral_core_iff: "numeral_core s \<longleftrightarrow> pattern_numeral s"
proof
  assume c: "numeral_core s"
  define sign where "sign = (case s of [] \<Rightarrow> [] | c # cs \<Rightarrow> if c = CHR ''+'' \<or> c = CHR ''-'' then [c] else [])"
  define unsigned where "unsigned = (case s of [] \<Rightarrow> [] | c # cs \<Rightarrow> if c = CHR ''+'' \<or> c = CHR ''-'' then cs else s)"
  have s: "s = sign @ unsigned" and sg: "sign \<in> {[], ''+'', ''-''}"
    by (auto simp: sign_def unsigned_def split: list.splits)
  let ?w = "takeWhile py_isdecimal unsigned"
  let ?f = "dropWhile py_isdecimal unsigned"
  have "s = sign @ ?w @ ?f" using s by simp
  moreover have "list_all py_isdecimal ?w"
    by (simp add: list_all_iff) (meson set_takeWhileD)
  moreover have "?f = [] \<or> (\<exists>ds. ?f = CHR ''.'' # ds \<and> ds \<noteq> [] \<and> list_all py_isdecimal ds)"
    using c unfolding numeral_core_def Let_def unsigned_def[symmetric]
    by (cases ?f) auto
  ultimately show "pattern_numeral s"
    unfolding pattern_numeral_def using sg by blast
next
  assume "pattern_numeral s"
  then obtain sign whole fraction where s: "s = sign @ whole @ fraction" and sg: "sign \<in> {[], ''+'', ''-''}"
    and w: "list_all py_isdecimal whole"
    and f: "fraction = [] \<or> (\<exists>ds. fraction = CHR ''.'' # ds \<and> ds \<noteq> [] \<and> list_all py_isdecimal ds)"
    unfolding pattern_numeral_def by blast
  have fh: "fraction = [] \<or> \<not> py_isdecimal (hd fraction)"
    using f dot_not_decimal by auto
  have u: "(case s of [] \<Rightarrow> [] | c # cs \<Rightarrow> if c = CHR ''+'' \<or> c = CHR ''-'' then cs else s) = whole @ fraction"
  proof (cases "sign = []")
    case True
    show ?thesis
    proof (cases "whole @ fraction")
      case Nil
      then show ?thesis using s True by simp
    next
      case (Cons c cs)
      then have "c \<noteq> CHR ''+'' \<and> c \<noteq> CHR ''-''"
        using w f decimal_not_sign_dot by (cases whole) auto
      then show ?thesis using s True Cons by simp
    qed
  next
    case False
    then show ?thesis using s sg by auto
  qed
  show "numeral_core s"
    unfolding numeral_core_def Let_def u
    using dropWhile_decimal_append[OF w fh] f by auto
qed

lemma numeral_match_iff:
  assumes "\<forall>c \<in> set s. \<not> py_isspace c"
  shows "numeral_match s \<longleftrightarrow> pattern_numeral s"
proof -
  have "py_isspace (CHR 0x0A)" by (simp add: py_isspace_def)
  then have "s \<noteq> [] \<Longrightarrow> last s \<noteq> CHR 0x0A"
    using assms last_in_set by metis
  then show ?thesis
    unfolding numeral_match_def numeral_core_iff by blast
qed

lemma py_strip_no_space:
  assumes "\<forall>c \<in> set s. \<not> py_isspace c"
  shows "py_strip s = s"
proof -
  have a: "dropWhile py_isspace xs = xs" if "\<forall>c \<in> set xs. \<not> py_isspace c" for xs
    using that by (cases xs) auto
  have "dropWhile py_isspace s = s"
    using assms by (rule a)
  moreover have "dropWhile py_isspace (rev s) = rev s"
    using assms by (intro a) simp
  ultimately show ?thesis by (simp add: py_strip_def)
qed

lemma py_float_numeral:
  assumes "pattern_numeral s" and "\<forall>c \<in> set s. \<not> py_isspace c" and "s \<notin> {[], ''+'', ''-''}"
  shows "\<exists>x. py_float s = Inr x"
proof -
  from assms(1) obtain sign whole fraction where s: "s = sign @ whole @ fraction" and sg: "sign \<in> {[], ''+'', ''-''}"
    and w: "list_all py_isdecimal whole"
    and f: "fraction = [] \<or> (\<exists>ds. fraction = CHR ''.'' # ds \<and> ds \<noteq> [] \<and> list_all py_isdecimal ds)"
    unfolding pattern_numeral_def by blast
  have fh: "fraction = [] \<or> \<not> py_isdecimal (hd fraction)"
    using f dot_not_decimal by auto
  have u: "(case s of [] \<Rightarrow> [] | c # cs \<Rightarrow> if c = CHR ''+'' \<or> c = CHR ''-'' then cs else s) = whole @ fraction"
  proof (cases "sign = []")
    case True
    show ?thesis
    proof (cases "whole @ fraction")
      case Nil
      then show ?thesis using s True by simp
    next
      case (Cons c cs)
      then have "c \<noteq> CHR ''+'' \<and> c \<noteq> CHR ''-''"
        using w f decimal_not_sign_dot by (cases whole) auto
      then show ?thesis using s True Cons by simp
    qed
  next
    case False
    then show ?thesis using s sg by auto
  qed
  have ne: "whole @ fraction \<noteq> []" using assms(3) s sg by auto
  have "takeWhile py_isdecimal (whole @ fraction) \<noteq> [] \<or> drop 1 (dropWhile py_isdecimal (whole @ fraction)) \<noteq> []"
    using dropWhile_decimal_append[OF w fh] f ne by auto
  then show ?thesis
    unfolding py_float_def Let_def py_strip_no_space[OF assms(2)] u by auto
qed

lemma specified_numeral_head:
  assumes "specified_numeral s"
  shows "s \<noteq> [] \<and> (hd s = CHR ''+'' \<or> hd s = CHR ''-'' \<or> py_isdecimal (hd s))"
proof -
  from assms obtain sign whole fraction where s: "s = sign @ whole @ fraction"
    and sg: "sign \<in> {[], ''+'', ''-''}" and w: "whole \<noteq> []" "list_all py_isdecimal whole"
    unfolding specified_numeral_def by blast
  from w obtain c cs where "whole = c # cs" "py_isdecimal c"
    by (cases whole) auto
  then show ?thesis using s sg by auto
qed

section \<open>The limit on the depth of recursion\<close>

text \<open>Every call returns, with a value or with an exception.\<close>

lemma evaluateDFS_loop_returns:
  assumes IH: "\<And>d self cell visiting. d < depth \<Longrightarrow> evaluateDFS d self cell visiting \<noteq> None"
  shows "evaluateDFS_loop depth self cell ops rest visiting queue \<noteq> None"
proof (induction rest arbitrary: self visiting queue)
  case Nil
  then show ?case by simp
next
  case (Cons op rest)
  show ?case
  proof (cases "length ops \<le> maxTokensPerCell \<and> op \<notin> {''+'', ''-'', ''*'', ''/''}
                 \<and> isCellReference op = Inr True")
    case False
    then show ?thesis
      using Cons.IH
      by (auto simp: Let_def split: sum.splits bool.splits nat.splits option.splits simp del: insert_iff)
  next
    case True
    show ?thesis
    proof (cases depth)
      case 0
      with True show ?thesis by (simp del: insert_iff)
    next
      case (Suc d)
      have "evaluateDFS d self op visiting \<noteq> None"
        using IH[of d self op visiting] Suc by simp
      then obtain r1 self1 visiting1 where n: "evaluateDFS d self op visiting = Some (r1, self1, visiting1)"
        by (cases "evaluateDFS d self op visiting") auto
      show ?thesis
      proof (cases r1)
        case (Inl e)
        with n True Suc show ?thesis by (simp del: insert_iff)
      next
        case (Inr val)
        have "evaluateDFS_loop depth self1 cell ops rest visiting1 (queue @ [val]) \<noteq> None"
          by (rule Cons.IH)
        with n True Suc Inr show ?thesis by (simp del: insert_iff)
      qed
    qed
  qed
qed

lemma evaluateDFS_returns: "evaluateDFS depth self cell visiting \<noteq> None"
proof (induction depth arbitrary: self cell visiting rule: less_induct)
  case (less depth)
  have loop: "evaluateDFS_loop depth s c ops rest V q \<noteq> None" for s c ops rest V q
  proof (rule evaluateDFS_loop_returns)
    fix d and self :: SpreadsheetEval and cell visiting
    assume "d < depth"
    then show "evaluateDFS d self cell visiting \<noteq> None" by (rule less.IH)
  qed
  show ?case
  proof (cases "valMap self cell = None \<and> cell \<notin> visiting \<and> exprMap self cell \<noteq> None")
    case False
    then show ?thesis by (auto simp: evaluateDFS.simps split: option.splits)
  next
    case True
    then obtain ops where ops: "exprMap self cell = Some ops" by auto
    from loop[of self cell ops ops "insert cell visiting" "[]"]
    show ?thesis using True ops
      by (auto simp: evaluateDFS.simps Let_def split: option.splits sum.splits)
  qed
qed

text \<open>
  The only call that raises \<^verbatim>\<open>RecursionError\<close> is the nested call that the limit does not
  allow.
\<close>

lemma evaluateDFS_loop_other_token:
  assumes other: "\<not> (length ops \<le> maxTokensPerCell \<and> op \<notin> {''+'', ''-'', ''*'', ''/''}
                 \<and> isCellReference op = Inr True)"
    and run: "evaluateDFS_loop depth self cell ops (op # rest) visiting queue = Some (r, self', visiting')"
  shows "r \<noteq> Inl RecursionError
       \<or> (\<exists>x. evaluateDFS_loop depth self cell ops rest visiting (queue @ [PFloat x])
               = Some (r, self', visiting'))"
proof (cases "length ops > maxTokensPerCell")
  case True
  with run show ?thesis by auto
next
  case short: False
  show ?thesis
  proof (cases "op \<in> {''+'', ''-'', ''*'', ''/''}")
    case True
    with short run calculate_tuple_method[OF True] show ?thesis
      by (auto simp del: insert_iff split: if_splits)
  next
    case notop: False
    show ?thesis
    proof (cases "isCellReference op")
      case (Inl e)
      then have "e = ValueError" by (simp add: isCellReference_raises_iff)
      with Inl short notop run show ?thesis by (auto simp del: insert_iff)
    next
      case (Inr b)
      with other short notop have b: "\<not> b" by auto
      show ?thesis
      proof (cases "numeral_match op")
        case False
        with Inr b short notop run show ?thesis by (auto simp del: insert_iff)
      next
        case True
        show ?thesis
        proof (cases "py_float op")
          case (Inl e)
          with True Inr b short notop run show ?thesis by (auto simp del: insert_iff)
        next
          case x: (Inr x)
          with True Inr b short notop run have
            "evaluateDFS_loop depth self cell ops rest visiting (queue @ [PFloat x])
               = Some (r, self', visiting')"
            by (simp del: insert_iff)
          then show ?thesis by blast
        qed
      qed
    qed
  qed
qed

text \<open>
  The limit is not reached when it allows as many nested calls as there are cells that
  have an expression and are not being visited: each nested call that goes on visits one
  more of them.
\<close>

lemma evaluateDFS_loop_within_limit:
  assumes IH: "\<And>d self cell visiting r self' visiting'.
      d < depth \<Longrightarrow> finite (dom (exprMap self)) \<Longrightarrow> card (dom (exprMap self) - visiting) \<le> d
      \<Longrightarrow> evaluateDFS d self cell visiting = Some (r, self', visiting')
      \<Longrightarrow> r \<noteq> Inl RecursionError"
  shows "finite (dom (exprMap self)) \<Longrightarrow> card (dom (exprMap self) - visiting) < depth
      \<Longrightarrow> evaluateDFS_loop depth self cell ops rest visiting queue = Some (r, self', visiting')
      \<Longrightarrow> r \<noteq> Inl RecursionError"
proof (induction rest arbitrary: self visiting queue)
  case Nil
  then show ?case by auto
next
  case (Cons op rest)
  from Cons.prems(2) obtain d where d: "depth = Suc d" by (cases depth) auto
  show ?case
  proof (cases "length ops \<le> maxTokensPerCell \<and> op \<notin> {''+'', ''-'', ''*'', ''/''}
                 \<and> isCellReference op = Inr True")
    case False
    from evaluateDFS_loop_other_token[OF False Cons.prems(3)] Cons.IH[OF Cons.prems(1,2)]
    show ?thesis by blast
  next
    case True
    obtain r1 self1 visiting1 where n: "evaluateDFS d self op visiting = Some (r1, self1, visiting1)"
      using evaluateDFS_returns[of d self op visiting]
      by (cases "evaluateDFS d self op visiting") auto
    have r1: "r1 \<noteq> Inl RecursionError"
      using IH[OF _ Cons.prems(1) _ n] Cons.prems(2) d by simp
    show ?thesis
    proof (cases r1)
      case (Inl e)
      with n True d Cons.prems(3) r1 show ?thesis by (auto simp del: insert_iff)
    next
      case (Inr val)
      from evaluateDFS_frame[OF n] Inr have v: "visiting1 = visiting" and
        e: "exprMap self1 = exprMap self" by (auto simp: no_overwrite_def)
      from n True d Inr v Cons.prems(3) have
        "evaluateDFS_loop depth self1 cell ops rest visiting (queue @ [val]) = Some (r, self', visiting')"
        by (simp del: insert_iff)
      then show ?thesis
        using Cons.IH[of self1 visiting] Cons.prems(1,2) e by simp
    qed
  qed
qed

lemma evaluateDFS_within_limit:
  "finite (dom (exprMap self)) \<Longrightarrow> card (dom (exprMap self) - visiting) \<le> depth
   \<Longrightarrow> evaluateDFS depth self cell visiting = Some (r, self', visiting')
   \<Longrightarrow> r \<noteq> Inl RecursionError"
proof (induction depth arbitrary: self cell visiting r self' visiting' rule: less_induct)
  case (less depth)
  have loop: "q' \<noteq> Inl RecursionError"
    if "finite (dom (exprMap s))" "card (dom (exprMap s) - V) < depth"
       "evaluateDFS_loop depth s c ops rest V q = Some (q', s', V')" for s c ops rest V q q' s' V'
  proof (rule evaluateDFS_loop_within_limit[OF _ that])
    fix d and self :: SpreadsheetEval and cell visiting r self' visiting'
    assume "d < depth" "finite (dom (exprMap self))" "card (dom (exprMap self) - visiting) \<le> d"
      "evaluateDFS d self cell visiting = Some (r, self', visiting')"
    then show "r \<noteq> Inl RecursionError" by (rule less.IH)
  qed
  show ?case
  proof (cases "valMap self cell = None \<and> cell \<notin> visiting \<and> exprMap self cell \<noteq> None")
    case False
    then show ?thesis
      using less.prems(3) by (auto simp: evaluateDFS.simps split: option.splits if_splits)
  next
    case True
    then obtain ops where ops: "exprMap self cell = Some ops" by auto
    have "dom (exprMap self) - insert cell visiting \<subset> dom (exprMap self) - visiting"
      using True ops by auto
    then have "card (dom (exprMap self) - insert cell visiting) < card (dom (exprMap self) - visiting)"
      using less.prems(1) by (intro psubset_card_mono) auto
    then have c: "card (dom (exprMap self) - insert cell visiting) < depth"
      using less.prems(2) by simp
    from less.prems(3) True ops obtain q' s' V' where
      l: "evaluateDFS_loop depth self cell ops ops (insert cell visiting) [] = Some (q', s', V')"
      by (auto simp: evaluateDFS.simps split: option.splits)
    from loop[OF less.prems(1) c l] have "q' \<noteq> Inl RecursionError" .
    with less.prems(3) True ops l show ?thesis
      by (auto simp: evaluateDFS.simps Let_def split: sum.splits if_splits)
  qed
qed

text \<open>A result other than \<^verbatim>\<open>RecursionError\<close> does not depend on the limit that allowed it.\<close>

lemma evaluateDFS_loop_depth_mono:
  assumes IH: "\<And>d d' self cell visiting r self' visiting'.
      d < depth \<Longrightarrow> d \<le> d' \<Longrightarrow> evaluateDFS d self cell visiting = Some (r, self', visiting')
      \<Longrightarrow> r \<noteq> Inl RecursionError
      \<Longrightarrow> evaluateDFS d' self cell visiting = Some (r, self', visiting')"
    and le: "depth \<le> depth'"
  shows "evaluateDFS_loop depth self cell ops rest visiting queue = Some (r, self', visiting')
      \<Longrightarrow> r \<noteq> Inl RecursionError
      \<Longrightarrow> evaluateDFS_loop depth' self cell ops rest visiting queue = Some (r, self', visiting')"
proof (induction rest arbitrary: self visiting queue)
  case Nil
  then show ?case by simp
next
  case (Cons op rest)
  have other: ?case if "\<not> (length ops \<le> maxTokensPerCell \<and> op \<notin> {''+'', ''-'', ''*'', ''/''}
                 \<and> isCellReference op = Inr True)"
  proof (cases "length ops > maxTokensPerCell")
    case True
    with Cons.prems show ?thesis by simp
  next
    case short: False
    show ?thesis
    proof (cases "op \<in> {''+'', ''-'', ''*'', ''/''}")
      case True
      with short Cons.prems calculate_tuple_method[OF True] show ?thesis
        by (simp del: insert_iff split: if_splits)
    next
      case notop: False
      show ?thesis
      proof (cases "isCellReference op")
        case (Inl e)
        with short notop Cons.prems show ?thesis by (simp del: insert_iff)
      next
        case (Inr b)
        with that short notop have b: "\<not> b" by auto
        show ?thesis
        proof (cases "numeral_match op")
          case False
          with Inr b short notop Cons.prems show ?thesis by (simp del: insert_iff)
        next
          case True
          show ?thesis
          proof (cases "py_float op")
            case (Inl e)
            with True Inr b short notop Cons.prems show ?thesis by (simp del: insert_iff)
          next
            case x: (Inr x)
            with True Inr b short notop Cons.prems have
              "evaluateDFS_loop depth self cell ops rest visiting (queue @ [PFloat x])
                 = Some (r, self', visiting')"
              by (simp del: insert_iff)
            from Cons.IH[OF this Cons.prems(2)] x True Inr b short notop show ?thesis
              by (simp del: insert_iff)
          qed
        qed
      qed
    qed
  qed
  show ?case
  proof (cases "length ops \<le> maxTokensPerCell \<and> op \<notin> {''+'', ''-'', ''*'', ''/''}
                 \<and> isCellReference op = Inr True")
    case False
    then show ?thesis by (rule other)
  next
    case True
    from Cons.prems True obtain d where d: "depth = Suc d"
      by (cases depth) (auto simp del: insert_iff)
    from le d obtain d' where d': "depth' = Suc d'" "d \<le> d'"
      by (cases depth') auto
    obtain r1 self1 visiting1 where
      n: "evaluateDFS d self op visiting = Some (r1, self1, visiting1)"
      using evaluateDFS_returns[of d self op visiting]
      by (cases "evaluateDFS d self op visiting") auto
    have r1: "r1 \<noteq> Inl RecursionError"
      using Cons.prems True d n by (cases r1) (auto simp del: insert_iff)
    have n': "evaluateDFS d' self op visiting = Some (r1, self1, visiting1)"
      using IH[OF _ d'(2) n r1] d by simp
    show ?thesis
    proof (cases r1)
      case (Inl e)
      with Cons.prems True d d' n n' show ?thesis by (simp del: insert_iff)
    next
      case (Inr val)
      with Cons.prems True d n have
        "evaluateDFS_loop depth self1 cell ops rest visiting1 (queue @ [val]) = Some (r, self', visiting')"
        by (simp del: insert_iff)
      from Cons.IH[OF this Cons.prems(2)] True d' n' Inr show ?thesis by (simp del: insert_iff)
    qed
  qed
qed

lemma evaluateDFS_depth_mono:
  "evaluateDFS depth self cell visiting = Some (r, self', visiting') \<Longrightarrow> r \<noteq> Inl RecursionError
   \<Longrightarrow> depth \<le> depth'
   \<Longrightarrow> evaluateDFS depth' self cell visiting = Some (r, self', visiting')"
proof (induction depth arbitrary: depth' self cell visiting r self' visiting' rule: less_induct)
  case (less depth)
  have loop: "evaluateDFS_loop depth' s c ops rest V q = Some (x, s', V')"
    if "evaluateDFS_loop depth s c ops rest V q = Some (x, s', V')" "x \<noteq> Inl RecursionError"
    for s c ops rest V q x s' V'
  proof (rule evaluateDFS_loop_depth_mono[OF _ less.prems(3) that])
    fix d d' and self :: SpreadsheetEval and cell visiting r self' visiting'
    assume "d < depth" "d \<le> d'" "evaluateDFS d self cell visiting = Some (r, self', visiting')"
      "r \<noteq> Inl RecursionError"
    then show "evaluateDFS d' self cell visiting = Some (r, self', visiting')"
      using less.IH by blast
  qed
  show ?case
  proof (cases "valMap self cell = None \<and> cell \<notin> visiting \<and> exprMap self cell \<noteq> None")
    case False
    then show ?thesis
      using less.prems(1) by (auto simp: evaluateDFS.simps split: option.splits)
  next
    case True
    then obtain ops where ops: "exprMap self cell = Some ops" by auto
    from less.prems(1) True ops obtain x s1 V1 where
      l: "evaluateDFS_loop depth self cell ops ops (insert cell visiting) [] = Some (x, s1, V1)"
      by (auto simp: evaluateDFS.simps split: option.splits)
    have "x \<noteq> Inl RecursionError"
      using less.prems(1,2) True ops l
      by (cases x) (auto simp: evaluateDFS.simps)
    from less.prems(1) True ops l loop[OF l this] show ?thesis
      by (simp add: evaluateDFS.simps)
  qed
qed

section \<open>A whole run\<close>

lemma evaluate_row_frame:
  "evaluate_row depth self row = Some (Inr self') \<Longrightarrow> no_overwrite self {} self'"
proof (induction row arbitrary: self)
  case Nil
  then show ?case by (simp add: no_overwrite_refl)
next
  case (Cons cell row)
  show ?case
  proof (cases "exprMap self cell \<noteq> None")
    case False
    with Cons show ?thesis by simp
  next
    case True
    with Cons.prems obtain v self1 visiting1 where
      e: "evaluateDFS depth self cell {} = Some (Inr v, self1, visiting1)" and
      r: "evaluate_row depth self1 row = Some (Inr self')"
      by (auto split: option.splits sum.splits)
    from evaluateDFS_frame[OF e] Cons.IH[OF r] show ?thesis
      by (blast intro: no_overwrite_trans)
  qed
qed

lemma evaluate_rows_frame:
  "evaluate_rows depth self rows = Some (Inr self') \<Longrightarrow> no_overwrite self {} self'"
proof (induction rows arbitrary: self)
  case Nil
  then show ?case by (simp add: no_overwrite_refl)
next
  case (Cons row rows)
  from Cons.prems obtain self1 where
    a: "evaluate_row depth self row = Some (Inr self1)" and
    b: "evaluate_rows depth self1 rows = Some (Inr self')"
    by (auto split: option.splits sum.splits)
  from evaluate_row_frame[OF a] Cons.IH[OF b] show ?case
    by (blast intro: no_overwrite_trans)
qed

lemma evaluate_keeps_entry:
  assumes "evaluate depth self = Some (Inr self')" and "valMap self cell = Some v"
  shows "valMap self' cell = Some v"
  using evaluate_rows_frame[of depth self "grid self" self'] assms
  unfolding evaluate_def no_overwrite_def by (metis option.distinct(1))

lemma evaluate_row_returns: "evaluate_row depth self row \<noteq> None"
proof (induction row arbitrary: self)
  case Nil
  then show ?case by simp
next
  case (Cons cell row)
  show ?case
  proof (cases "exprMap self cell \<noteq> None")
    case False
    with Cons show ?thesis by simp
  next
    case True
    obtain r self1 visiting1 where e: "evaluateDFS depth self cell {} = Some (r, self1, visiting1)"
      using evaluateDFS_returns[of depth self cell "{}"]
      by (cases "evaluateDFS depth self cell {}") auto
    with Cons.IH[of self1] True show ?thesis by (cases r) auto
  qed
qed

lemma evaluate_rows_returns: "evaluate_rows depth self rows \<noteq> None"
proof (induction rows arbitrary: self)
  case Nil
  then show ?case by simp
next
  case (Cons row rows)
  from evaluate_row_returns[of depth self row] obtain r where
    a: "evaluate_row depth self row = Some r" by auto
  with Cons.IH show ?case by (cases r) auto
qed

lemma evaluate_row_within_limit:
  "finite (dom (exprMap self)) \<Longrightarrow> card (dom (exprMap self)) \<le> depth
   \<Longrightarrow> evaluate_row depth self row \<noteq> Some (Inl RecursionError)"
proof (induction row arbitrary: self)
  case Nil
  then show ?case by simp
next
  case (Cons cell row)
  show ?case
  proof (cases "exprMap self cell \<noteq> None")
    case False
    with Cons show ?thesis by simp
  next
    case True
    obtain r self1 visiting1 where e: "evaluateDFS depth self cell {} = Some (r, self1, visiting1)"
      using evaluateDFS_returns[of depth self cell "{}"]
      by (cases "evaluateDFS depth self cell {}") auto
    have r: "r \<noteq> Inl RecursionError"
      using evaluateDFS_within_limit[OF Cons.prems(1) _ e] Cons.prems(2) by simp
    from evaluateDFS_frame[OF e] have "exprMap self1 = exprMap self"
      by (simp add: no_overwrite_def)
    with Cons.IH[of self1] Cons.prems
    have "evaluate_row depth self1 row \<noteq> Some (Inl RecursionError)" by simp
    with e True r show ?thesis by (cases r) auto
  qed
qed

lemma evaluate_rows_within_limit:
  "finite (dom (exprMap self)) \<Longrightarrow> card (dom (exprMap self)) \<le> depth
   \<Longrightarrow> evaluate_rows depth self rows \<noteq> Some (Inl RecursionError)"
proof (induction rows arbitrary: self)
  case Nil
  then show ?case by simp
next
  case (Cons row rows)
  from evaluate_row_returns[of depth self row] obtain r where
    a: "evaluate_row depth self row = Some r" by auto
  show ?case
  proof (cases r)
    case (Inl e)
    with a evaluate_row_within_limit[OF Cons.prems, of row] show ?thesis by auto
  next
    case (Inr self1)
    from evaluate_row_frame[of depth self row self1] a Inr have "exprMap self1 = exprMap self"
      by (simp add: no_overwrite_def)
    with Cons.IH[of self1] Cons.prems
    have "evaluate_rows depth self1 rows \<noteq> Some (Inl RecursionError)" by simp
    with a Inr show ?thesis by simp
  qed
qed

lemma writeOutput_cells_raises:
  "writeOutput_cells repr self row = Inl e \<Longrightarrow> e = KeyError"
  by (induction row arbitrary: e) (auto split: option.splits sum.splits)

lemma writeOutput_rows_raises:
  "writeOutput_rows repr self rows = Inl e \<Longrightarrow> e = KeyError"
  by (induction rows arbitrary: e) (auto split: sum.splits dest: writeOutput_cells_raises)

lemma parseInput_cells_finite:
  "parseInput_cells self rowIndex colIndex cells rowCells = (self', rowCells')
   \<Longrightarrow> finite (dom (exprMap self)) \<Longrightarrow> finite (dom (exprMap self'))"
proof (induction cells arbitrary: self colIndex rowCells)
  case Nil
  then show ?case by simp
next
  case (Cons expression cells)
  let ?blank = "self\<lparr>valMap := (valMap self)(getCellName colIndex rowIndex \<mapsto> PStr '''')\<rparr>"
  let ?filled = "self\<lparr>exprMap := (exprMap self)(getCellName colIndex rowIndex \<mapsto> py_split (py_strip expression))\<rparr>"
  have fb: "finite (dom (exprMap ?blank))" using Cons.prems(2) by simp
  have "dom (exprMap ?filled) = insert (getCellName colIndex rowIndex) (dom (exprMap self))"
    by auto
  then have ff: "finite (dom (exprMap ?filled))" using Cons.prems(2) by simp
  show ?case
  proof (cases "py_strip expression = []")
    case True
    with Cons.prems(1) have
      "parseInput_cells ?blank rowIndex (colIndex + 1) cells (rowCells @ [getCellName colIndex rowIndex])
         = (self', rowCells')"
      by (simp add: Let_def)
    then show ?thesis using fb by (rule Cons.IH)
  next
    case False
    with Cons.prems(1) have
      "parseInput_cells ?filled rowIndex (colIndex + 1) cells (rowCells @ [getCellName colIndex rowIndex])
         = (self', rowCells')"
      by (simp add: Let_def)
    then show ?thesis using ff by (rule Cons.IH)
  qed
qed

lemma parseInput_rows_finite:
  "parseInput_rows self rowIndex cellCount rows = Inr self'
   \<Longrightarrow> finite (dom (exprMap self)) \<Longrightarrow> finite (dom (exprMap self'))"
proof (induction rows arbitrary: self rowIndex cellCount)
  case Nil
  then show ?case by simp
next
  case (Cons row rows)
  let ?cells = "py_split_on (CHR '','') (py_strip row)"
  obtain self1 rowCells where c: "parseInput_cells self rowIndex 0 ?cells [] = (self1, rowCells)"
    by (cases "parseInput_cells self rowIndex 0 ?cells []") auto
  from Cons.prems(1) c have
    "parseInput_rows (self1\<lparr>grid := grid self1 @ [rowCells]\<rparr>) (rowIndex + 1)
        (cellCount + length ?cells) rows = Inr self'"
    by (simp add: Let_def split: if_splits)
  moreover have "finite (dom (exprMap (self1\<lparr>grid := grid self1 @ [rowCells]\<rparr>)))"
    using parseInput_cells_finite[OF c Cons.prems(2)] by simp
  ultimately show ?case by (rule Cons.IH)
qed

text \<open>
  Every run gives a result, the output or an exception. The exception is not
  \<^verbatim>\<open>RecursionError\<close> when the limit allows as many nested calls as there are cells that
  have an expression.
\<close>

lemma main_returns: "main repr depth inputText \<noteq> None"
proof (cases "parseInput init inputText")
  case (Inl e)
  then show ?thesis by (simp add: main_def)
next
  case (Inr self)
  from evaluate_rows_returns[of depth self "grid self"] obtain x where
    "evaluate depth self = Some x" by (auto simp: evaluate_def)
  with Inr show ?thesis by (cases x) (simp_all add: main_def)
qed

lemma main_within_limit:
  assumes "parseInput init inputText = Inr self" and "card (dom (exprMap self)) \<le> depth"
  shows "main repr depth inputText \<noteq> Some (Inl RecursionError)"
proof -
  have f: "finite (dom (exprMap self))"
    using assms(1) parseInput_rows_finite[of init 0 0 "file_lines inputText []" self]
    by (simp add: parseInput_def init_def)
  from evaluate_rows_within_limit[OF f assms(2), of "grid self"]
  have e: "evaluate depth self \<noteq> Some (Inl RecursionError)" by (simp add: evaluate_def)
  have w: "writeOutput repr s \<noteq> Inl RecursionError" for s
    using writeOutput_rows_raises[of repr s "grid s" RecursionError] by (auto simp: writeOutput_def)
  from e w assms(1) show ?thesis
    by (auto simp: main_def split: sum.splits option.splits)
qed

text \<open>
  A run that succeeds: cells holding literals and references are evaluated and written,
  each value printed by \<open>repr\<close>.
\<close>

lemma getCellName_B2: "getCellName 1 1 = ''B2''"
  by code_simp

lemma run_of_literals_and_references:
  "main repr (Suc depth) (''1,2.5'' @ [CHR 0x0A] @ ''A1,B1'') =
     Some (Inr (repr (PFloat 1) @ '','' @ repr (PFloat (5 / 2)) @ [CHR 0x0A]
                @ repr (PFloat 1) @ '','' @ repr (PFloat (5 / 2)) @ [CHR 0x0A]))"
  by (simp add: run_simps cell_names getCellName_B2)

text \<open>
  \<^verbatim>\<open>evaluate\<close> stops at the first exception: when resolving the first cell that has an
  expression raises, the run ends with that exception.
\<close>

lemma evaluate_row_first:
  "find (\<lambda>cell. exprMap self cell \<noteq> None) row = Some c
   \<Longrightarrow> evaluateDFS depth self c {} = Some (Inl e, self', visiting')
   \<Longrightarrow> evaluate_row depth self row = Some (Inl e)"
  by (induction row) (auto split: if_splits)

lemma evaluate_row_no_expression:
  "find (\<lambda>cell. exprMap self cell \<noteq> None) row = None \<Longrightarrow> evaluate_row depth self row = Some (Inr self)"
  by (induction row) (auto split: if_splits)

lemma find_append:
  "find P (xs @ ys) = (case find P xs of None \<Rightarrow> find P ys | Some x \<Rightarrow> Some x)"
  by (induction xs) auto

lemma evaluate_rows_first:
  "find (\<lambda>cell. exprMap self cell \<noteq> None) (concat rows) = Some c
   \<Longrightarrow> evaluateDFS depth self c {} = Some (Inl e, self', visiting')
   \<Longrightarrow> evaluate_rows depth self rows = Some (Inl e)"
proof (induction rows)
  case Nil
  then show ?case by simp
next
  case (Cons row rows)
  show ?case
  proof (cases "find (\<lambda>cell. exprMap self cell \<noteq> None) row")
    case None
    with Cons.prems(1) have "find (\<lambda>cell. exprMap self cell \<noteq> None) (concat rows) = Some c"
      by (simp add: find_append)
    from Cons.IH[OF this Cons.prems(2)] evaluate_row_no_expression[OF None, of depth]
    show ?thesis by simp
  next
    case (Some c')
    with Cons.prems(1) have "c' = c" by (simp add: find_append)
    with Some evaluate_row_first[OF _ Cons.prems(2), of row] show ?thesis by simp
  qed
qed

lemma main_first_raises:
  assumes "parseInput init inputText = Inr self" and "first_evaluated self = Some c"
    and "evaluateDFS depth self c {} = Some (Inl e, self', visiting')"
  shows "main repr depth inputText = Some (Inl e)"
  using assms evaluate_rows_first[of self "grid self" c depth e self' visiting']
  by (simp add: main_def evaluate_def first_evaluated_def)

section \<open>An input of one cell\<close>

lemma file_lines_single:
  "\<forall>c \<in> set s. c \<noteq> CHR 0x0A \<and> c \<noteq> CHR 0x0D \<Longrightarrow> line @ s \<noteq> [] \<Longrightarrow> file_lines s line = [line @ s]"
  by (induction s arbitrary: line) auto
lemma py_split_on_absent: "sep \<notin> set s \<Longrightarrow> py_split_on sep s = [s]"
  by (induction s) auto
lemma py_split_loop_word:
  "\<forall>c \<in> set t. \<not> py_isspace c \<Longrightarrow> py_split_loop (t @ rest) word = py_split_loop rest (word @ t)"
  by (induction t arbitrary: word) auto
lemma space_isspace: "py_isspace (CHR '' '')"
  by (simp add: py_isspace_def)
lemma py_split_join:
  "\<forall>t \<in> set ts. t \<noteq> [] \<and> (\<forall>c \<in> set t. \<not> py_isspace c) \<Longrightarrow> py_split (py_join '' '' ts) = ts"
proof (induction "'' ''" ts rule: py_join.induct)
  case 1
  then show ?case by (simp add: py_split_def)
next
  case (2 x)
  then show ?case
    using py_split_loop_word[of x "[]" "[]"] by (simp add: py_split_def)
next
  case (3 x y ys)
  have "py_split_loop (x @ '' '' @ py_join '' '' (y # ys)) [] = x # py_split_loop (py_join '' '' (y # ys)) []"
    using 3(2) py_split_loop_word[of x "'' '' @ py_join '' '' (y # ys)" "[]"]
    by (simp add: space_isspace)
  then show ?case using 3 by (simp add: py_split_def)
qed
lemma py_join_ends:
  "ts \<noteq> [] \<Longrightarrow> \<forall>t \<in> set ts. t \<noteq> [] \<Longrightarrow>
   py_join sep ts \<noteq> [] \<and> hd (py_join sep ts) = hd (hd ts) \<and> last (py_join sep ts) = last (last ts)"
  by (induction sep ts rule: py_join.induct) auto
lemma set_py_join: "set (py_join sep ts) \<subseteq> set sep \<union> \<Union> (set ` set ts)"
  by (induction sep ts rule: py_join.induct) auto
lemma py_strip_ends:
  assumes "s \<noteq> []" and "\<not> py_isspace (hd s)" and "\<not> py_isspace (last s)"
  shows "py_strip s = s"
proof -
  have "dropWhile py_isspace s = s"
    using assms(1,2) by (cases s) auto
  moreover have "dropWhile py_isspace (rev s) = rev s"
    using assms(1,3) by (cases "rev s") (auto simp: last_rev[symmetric] simp del: last_rev)
  ultimately show ?thesis by (simp add: py_strip_def)
qed

text \<open>
  The text made of tokens joined by single spaces, as the repository's test of the token
  limit builds it, is parsed into one cell holding these tokens.
\<close>
lemma parseInput_one_cell:
  assumes "ts \<noteq> []"
    and "\<forall>t \<in> set ts. t \<noteq> [] \<and> (\<forall>c \<in> set t. \<not> py_isspace c \<and> c \<noteq> CHR '','')"
  shows "parseInput init (py_join '' '' ts) = Inr (sheet [[''A1'']] [(''A1'', ts)] [])"
proof -
  let ?s = "py_join '' '' ts"
  have ne: "\<forall>t \<in> set ts. t \<noteq> []" using assms(2) by blast
  have tok: "\<forall>t \<in> set ts. t \<noteq> [] \<and> (\<forall>c \<in> set t. \<not> py_isspace c)" using assms(2) by blast
  from py_join_ends[OF assms(1) ne, of "'' ''"] have
    s: "?s \<noteq> []" and h: "hd ?s = hd (hd ts)" and l: "last ?s = last (last ts)" by auto
  have "hd ts \<in> set ts" "last ts \<in> set ts" using assms(1) by simp_all
  then have "hd (hd ts) \<in> set (hd ts)" "last (last ts) \<in> set (last ts)"
    "\<forall>c \<in> set (hd ts). \<not> py_isspace c" "\<forall>c \<in> set (last ts). \<not> py_isspace c"
    using assms(2) by auto
  then have "\<not> py_isspace (hd ?s)" "\<not> py_isspace (last ?s)"
    using h l by auto
  then have strip: "py_strip ?s = ?s" using s by (intro py_strip_ends)
  have chars: "c = CHR '' '' \<or> (\<not> py_isspace c \<and> c \<noteq> CHR '','')" if "c \<in> set ?s" for c
  proof -
    from that set_py_join[of "'' ''" ts] have "c \<in> set '' '' \<or> (\<exists>t \<in> set ts. c \<in> set t)"
      by blast
    then show ?thesis using assms(2) by auto
  qed
  have sp: "py_isspace (CHR 0x0A)" "py_isspace (CHR 0x0D)"
    by (simp_all add: py_isspace_def)
  have "c \<noteq> CHR 0x0A \<and> c \<noteq> CHR 0x0D" if "c \<in> set ?s" for c
    using chars[OF that] sp by auto
  then have "\<forall>c \<in> set ?s. c \<noteq> CHR 0x0A \<and> c \<noteq> CHR 0x0D" by blast
  moreover have "[] @ ?s \<noteq> []" using s by simp
  ultimately have "file_lines ?s [] = [[] @ ?s]" by (rule file_lines_single)
  then have lines: "file_lines ?s [] = [?s]" by simp
  have "CHR '','' \<notin> set ?s" using chars by auto
  then have cells: "py_split_on (CHR '','') ?s = [?s]" by (rule py_split_on_absent)
  have split: "py_split ?s = ts" using tok by (rule py_split_join)
  have "parseInput_cells init 0 0 [?s] [] = (init\<lparr>exprMap := (exprMap init)(''A1'' \<mapsto> ts)\<rparr>, [''A1''])"
    by (simp add: strip split s getCellName_A1 Let_def)
  then have "parseInput_rows init 0 0 [?s] =
      Inr (init\<lparr>exprMap := (exprMap init)(''A1'' \<mapsto> ts), grid := [[''A1'']]\<rparr>)"
    by (simp add: strip cells maxCells_def init_def)
  then show ?thesis
    by (simp add: parseInput_def lines init_def sheet_def)
qed

section \<open>A cycle never evaluates\<close>

lemma no_overwrite_keeps:
  "no_overwrite self V self' \<Longrightarrow> valMap self c \<noteq> None \<Longrightarrow> valMap self' c \<noteq> None"
  unfolding no_overwrite_def by metis

lemma no_overwrite_exprMap: "no_overwrite self V self' \<Longrightarrow> exprMap self' = exprMap self"
  by (simp add: no_overwrite_def)

lemma refers_exprMap: "exprMap self' = exprMap self \<Longrightarrow> refers self' c t = refers self c t"
  by (simp add: refers_def)

lemma evaluateDFS_loop_ranked:
  assumes IH: "\<And>d self cell visiting v self' visiting'.
      d < depth \<Longrightarrow> evaluateDFS d self cell visiting = Some (Inr v, self', visiting')
      \<Longrightarrow> \<exists>rank. ranked self rank \<Longrightarrow> \<exists>rank. ranked self' rank"
  shows "evaluateDFS_loop depth self cell ops rest visiting queue = Some (Inr queue', self', visiting')
      \<Longrightarrow> \<exists>rank. ranked self rank
      \<Longrightarrow> (\<exists>rank. ranked self' rank)
          \<and> (\<forall>t \<in> set rest. isCellReference t = Inr True \<and> exprMap self t \<noteq> None
                \<longrightarrow> valMap self' t \<noteq> None)"
proof (induction rest arbitrary: self visiting queue)
  case Nil
  then show ?case by simp
next
  case (Cons op rest)
  have other: ?case if nr: "isCellReference op \<noteq> Inr True"
  proof -
    have "\<exists>q. evaluateDFS_loop depth self cell ops rest visiting q = Some (Inr queue', self', visiting')"
      using Cons.prems(1) nr
      by (auto simp: Let_def split: if_splits sum.splits bool.splits simp del: insert_iff)
    then obtain q where "evaluateDFS_loop depth self cell ops rest visiting q = Some (Inr queue', self', visiting')" ..
    from Cons.IH[OF this Cons.prems(2)] nr show ?thesis by auto
  qed
  show ?case
  proof (cases "isCellReference op = Inr True")
    case False
    then show ?thesis by (rule other)
  next
    case True
    then have notop: "op \<notin> {''+'', ''-'', ''*'', ''/''}" by (rule isCellReference_not_operator)
    from Cons.prems(1) True notop obtain d where d: "depth = Suc d"
      by (cases depth) (auto simp del: insert_iff split: if_splits)
    from Cons.prems(1) True notop d obtain val self1 visiting1 where
      n: "evaluateDFS d self op visiting = Some (Inr val, self1, visiting1)" and
      l: "evaluateDFS_loop depth self1 cell ops rest visiting1 (queue @ [val]) = Some (Inr queue', self', visiting')"
      by (auto simp del: insert_iff split: if_splits option.splits sum.splits)
    have r1: "\<exists>rank. ranked self1 rank"
      using IH[OF _ n Cons.prems(2)] d by simp
    from evaluateDFS_frame[OF n] have e1: "exprMap self1 = exprMap self" and v1: "visiting1 = visiting"
      by (auto simp: no_overwrite_def)
    from Cons.IH[OF l r1] have
      r: "\<exists>rank. ranked self' rank" and
      t: "\<forall>t \<in> set rest. isCellReference t = Inr True \<and> exprMap self t \<noteq> None \<longrightarrow> valMap self' t \<noteq> None"
      by (auto simp: e1)
    have "valMap self' op \<noteq> None" if "exprMap self op \<noteq> None"
    proof -
      from evaluateDFS_stores[OF n that] have "valMap self1 op \<noteq> None" by simp
      moreover have "no_overwrite self1 visiting1 self'"
        using evaluateDFS_loop_frame[OF _ l] evaluateDFS_frame by blast
      ultimately show ?thesis by (rule no_overwrite_keeps[rotated])
    qed
    with r t show ?thesis by auto
  qed
qed

lemma evaluateDFS_ranked:
  "evaluateDFS depth self cell visiting = Some (Inr v, self', visiting')
   \<Longrightarrow> \<exists>rank. ranked self rank \<Longrightarrow> \<exists>rank. ranked self' rank"
proof (induction depth arbitrary: self cell visiting v self' visiting' rule: less_induct)
  case (less depth)
  have loop: "(\<exists>rank. ranked s' rank)
          \<and> (\<forall>t \<in> set rest. isCellReference t = Inr True \<and> exprMap s t \<noteq> None \<longrightarrow> valMap s' t \<noteq> None)"
    if "evaluateDFS_loop depth s c ops rest V q = Some (Inr q', s', V')" "\<exists>rank. ranked s rank"
    for s c ops rest V q q' s' V'
  proof (rule evaluateDFS_loop_ranked[OF _ that])
    fix d and self :: SpreadsheetEval and cell visiting v self' visiting'
    assume "d < depth" "evaluateDFS d self cell visiting = Some (Inr v, self', visiting')"
      "\<exists>rank. ranked self rank"
    then show "\<exists>rank. ranked self' rank" by (rule less.IH)
  qed
  show ?case
  proof (cases "valMap self cell = None \<and> cell \<notin> visiting \<and> exprMap self cell \<noteq> None")
    case False
    then have "self' = self"
      using less.prems(1) by (auto simp: evaluateDFS.simps split: option.splits if_splits)
    then show ?thesis using less.prems(2) by simp
  next
    case True
    then obtain ops where ops: "exprMap self cell = Some ops" by auto
    from less.prems(1) True ops obtain q1 self1 visiting1 where
      l: "evaluateDFS_loop depth self cell ops ops (insert cell visiting) [] = Some (Inr q1, self1, visiting1)"
      and s': "self' = self1\<lparr>valMap := (valMap self1)(cell \<mapsto> v)\<rparr>"
      by (auto simp: evaluateDFS.simps Let_def split: option.splits if_splits sum.splits)
    from loop[OF l less.prems(2)] obtain rank1 where
      r1: "ranked self1 rank1" and
      t1: "\<forall>t \<in> set ops. isCellReference t = Inr True \<and> exprMap self t \<noteq> None \<longrightarrow> valMap self1 t \<noteq> None"
      by blast
    have f: "no_overwrite self (insert cell visiting) self1"
      using evaluateDFS_loop_frame[OF _ l] evaluateDFS_frame by blast
    then have e1: "exprMap self1 = exprMap self" by (rule no_overwrite_exprMap)
    have c1: "valMap self1 cell = None"
      using f True unfolding no_overwrite_def by (metis insertI1)
    define rank' where "rank' = rank1(cell := Suc (Max (rank1 ` set ops)))"
    have "ranked self' rank'"
      unfolding ranked_def
    proof (intro allI impI)
      fix c t
      assume a: "refers self' c t \<and> valMap self' c \<noteq> None \<and> exprMap self' t \<noteq> None"
      have es: "exprMap self' = exprMap self" using e1 s' by simp
      from a have rf: "refers self1 c t" and et: "exprMap self1 t \<noteq> None"
        using s' by (simp_all add: refers_def)
      show "valMap self' t \<noteq> None \<and> rank' t < rank' c"
      proof (cases "c = cell")
        case True
        with rf ops e1 have tin: "t \<in> set ops" and tr: "isCellReference t = Inr True"
          by (auto simp: refers_def)
        with t1 et e1 have vt: "valMap self1 t \<noteq> None" by simp
        with c1 have ne: "t \<noteq> cell" by auto
        have "rank1 t \<le> Max (rank1 ` set ops)" using tin by simp
        then show ?thesis using ne vt True s' by (simp add: rank'_def)
      next
        case False
        with a s' have "valMap self1 c \<noteq> None" by simp
        with r1 rf et have vt: "valMap self1 t \<noteq> None" and lt: "rank1 t < rank1 c"
          unfolding ranked_def by blast+
        with c1 have ne: "t \<noteq> cell" by auto
        show ?thesis using ne vt lt False s' by (simp add: rank'_def)
      qed
    qed
    then show ?thesis by blast
  qed
qed

lemma unevaluated_ranked: "unevaluated self \<Longrightarrow> ranked self (\<lambda>c. 0)"
  by (auto simp: unevaluated_def ranked_def refers_def)

lemma evaluate_row_ranked:
  "evaluate_row depth self row = Some (Inr self') \<Longrightarrow> \<exists>rank. ranked self rank
   \<Longrightarrow> (\<exists>rank. ranked self' rank)
       \<and> (\<forall>c \<in> set row. exprMap self c \<noteq> None \<longrightarrow> valMap self' c \<noteq> None)"
proof (induction row arbitrary: self)
  case Nil
  then show ?case by simp
next
  case (Cons cell row)
  show ?case
  proof (cases "exprMap self cell \<noteq> None")
    case False
    with Cons.prems have "evaluate_row depth self row = Some (Inr self')" by simp
    from Cons.IH[OF this Cons.prems(2)] False show ?thesis by auto
  next
    case True
    with Cons.prems(1) obtain v self1 visiting1 where
      e: "evaluateDFS depth self cell {} = Some (Inr v, self1, visiting1)" and
      r: "evaluate_row depth self1 row = Some (Inr self')"
      by (auto split: option.splits sum.splits)
    from evaluateDFS_frame[OF e] have e1: "exprMap self1 = exprMap self"
      by (simp add: no_overwrite_def)
    from Cons.IH[OF r evaluateDFS_ranked[OF e Cons.prems(2)]] have
      a: "\<exists>rank. ranked self' rank" and
      b: "\<forall>c \<in> set row. exprMap self c \<noteq> None \<longrightarrow> valMap self' c \<noteq> None"
      by (auto simp: e1)
    from evaluateDFS_stores[OF e True] have "valMap self1 cell \<noteq> None" by simp
    then have "valMap self' cell \<noteq> None"
      using evaluate_row_frame[OF r] by (rule no_overwrite_keeps[rotated])
    with a b show ?thesis by auto
  qed
qed

lemma evaluate_rows_ranked:
  "evaluate_rows depth self rows = Some (Inr self') \<Longrightarrow> \<exists>rank. ranked self rank
   \<Longrightarrow> (\<exists>rank. ranked self' rank)
       \<and> (\<forall>c \<in> set (concat rows). exprMap self c \<noteq> None \<longrightarrow> valMap self' c \<noteq> None)"
proof (induction rows arbitrary: self)
  case Nil
  then show ?case by simp
next
  case (Cons row rows)
  from Cons.prems(1) obtain self1 where
    a: "evaluate_row depth self row = Some (Inr self1)" and
    b: "evaluate_rows depth self1 rows = Some (Inr self')"
    by (auto split: option.splits sum.splits)
  from evaluate_row_frame[OF a] have e1: "exprMap self1 = exprMap self"
    by (simp add: no_overwrite_def)
  from evaluate_row_ranked[OF a Cons.prems(2)] have
    r1: "\<exists>rank. ranked self1 rank" and
    v1: "\<forall>c \<in> set row. exprMap self c \<noteq> None \<longrightarrow> valMap self1 c \<noteq> None" by auto
  from Cons.IH[OF b r1] have
    r: "\<exists>rank. ranked self' rank" and
    v: "\<forall>c \<in> set (concat rows). exprMap self c \<noteq> None \<longrightarrow> valMap self' c \<noteq> None"
    by (auto simp: e1)
  have "\<forall>c \<in> set row. exprMap self c \<noteq> None \<longrightarrow> valMap self' c \<noteq> None"
    using v1 evaluate_rows_frame[OF b] no_overwrite_keeps by blast
  with r v show ?case by auto
qed

lemma ranked_no_cycle:
  assumes "ranked self rank" and "reference_cycle self cs" and "\<forall>c \<in> set cs. valMap self c \<noteq> None"
  shows False
proof -
  let ?n = "length cs"
  from assms(2) have ne: "cs \<noteq> []" and
    rf: "\<forall>i < ?n. refers self (cs ! i) (cs ! (Suc i mod ?n))"
    by (auto simp: reference_cycle_def)
  have step: "rank (cs ! (Suc i mod ?n)) < rank (cs ! i)" if "i < ?n" for i
  proof -
    have "Suc i mod ?n < ?n" using ne by (intro mod_less_divisor) simp
    then have "refers self (cs ! (Suc i mod ?n)) (cs ! (Suc (Suc i mod ?n) mod ?n))"
      using rf by blast
    then have "exprMap self (cs ! (Suc i mod ?n)) \<noteq> None" by (auto simp: refers_def)
    moreover have "valMap self (cs ! i) \<noteq> None" using assms(3) that by simp
    ultimately show ?thesis using assms(1) rf that unfolding ranked_def by blast
  qed
  define m where "m = Min (rank ` set cs)"
  have "m \<in> rank ` set cs" unfolding m_def using ne by (intro Min_in) auto
  then obtain i where i: "i < ?n" "rank (cs ! i) = m"
    by (auto simp: in_set_conv_nth)
  have "Suc i mod ?n < ?n" using ne by (intro mod_less_divisor) simp
  then have "cs ! (Suc i mod ?n) \<in> set cs" by simp
  then have "m \<le> rank (cs ! (Suc i mod ?n))" unfolding m_def by (intro Min_le) auto
  with step[OF i(1)] i(2) show False by simp
qed

lemma reference_cycle_never_evaluates:
  assumes "reference_cycle self cs" and "set cs \<subseteq> set (concat (grid self))" and "unevaluated self"
  shows "evaluate depth self \<noteq> Some (Inr self')"
proof
  assume e: "evaluate depth self = Some (Inr self')"
  then have r: "evaluate_rows depth self (grid self) = Some (Inr self')" by (simp add: evaluate_def)
  have "\<exists>rank. ranked self rank" using unevaluated_ranked[OF assms(3)] by blast
  from evaluate_rows_ranked[OF r this] obtain rank where
    rk: "ranked self' rank" and
    v: "\<forall>c \<in> set (concat (grid self)). exprMap self c \<noteq> None \<longrightarrow> valMap self' c \<noteq> None" by blast
  from evaluate_rows_frame[OF r] have e1: "exprMap self' = exprMap self"
    by (simp add: no_overwrite_def)
  have cyc: "reference_cycle self' cs"
    using assms(1) by (simp add: reference_cycle_def refers_exprMap[OF e1])
  have "\<forall>c \<in> set cs. valMap self' c \<noteq> None"
  proof
    fix c assume c: "c \<in> set cs"
    then obtain i where "i < length cs" "cs ! i = c" by (auto simp: in_set_conv_nth)
    then have "exprMap self c \<noteq> None"
      using assms(1) by (auto simp: reference_cycle_def refers_def)
    then show "valMap self' c \<noteq> None" using v c assms(2) by blast
  qed
  from ranked_no_cycle[OF rk cyc this] show False .
qed

section \<open>Cell names are distinct\<close>

declare py_str_nat.simps [simp del]

lemma py_str_nat_rec:
  "py_str_nat n = (if n < 10 then [char_of (48 + n)] else py_str_nat (n div 10) @ [char_of (48 + n mod 10)])"
  by (rule py_str_nat.simps)

lemma of_char_digit: "k < 10 \<Longrightarrow> (of_char (char_of (48 + k :: nat)) :: nat) = 48 + k"
  by simp

lemma py_str_nat_digits:
  "c \<in> set (py_str_nat n) \<Longrightarrow> 48 \<le> (of_char c :: nat) \<and> (of_char c :: nat) \<le> 57"
proof (induction n arbitrary: c rule: less_induct)
  case (less n)
  show ?case
  proof (cases "n < 10")
    case True
    with less.prems have "c = char_of (48 + n)" by (subst (asm) py_str_nat_rec) simp
    then show ?thesis using of_char_digit[OF True] True by simp
  next
    case False
    with less.prems have "c \<in> set (py_str_nat (n div 10)) \<or> c = char_of (48 + n mod 10)"
      by (subst (asm) py_str_nat_rec) auto
    then show ?thesis
    proof
      assume "c \<in> set (py_str_nat (n div 10))"
      moreover have "n div 10 < n" using False by simp
      ultimately show ?thesis using less.IH by blast
    next
      assume "c = char_of (48 + n mod 10)"
      then show ?thesis using of_char_digit[of "n mod 10"] by simp
    qed
  qed
qed

lemma py_str_nat_not_empty: "py_str_nat n \<noteq> []"
  by (subst py_str_nat_rec) simp

lemma py_str_nat_value:
  "foldl (\<lambda>acc c. acc * 10 + ((of_char c :: nat) - 48)) 0 (py_str_nat n) = n"
proof (induction n rule: less_induct)
  case (less n)
  show ?case
  proof (cases "n < 10")
    case True
    then show ?thesis using of_char_digit[OF True] by (subst py_str_nat_rec) simp
  next
    case False
    have "n div 10 < n" using False by simp
    from less.IH[OF this] show ?thesis
      using of_char_digit[of "n mod 10"] False by (subst py_str_nat_rec) simp
  qed
qed

lemma py_str_nat_inj: "py_str_nat m = py_str_nat n \<Longrightarrow> m = n"
  by (metis py_str_nat_value)

lemma letters_then_digits:
  assumes "\<forall>c \<in> set l. P c" and "d \<noteq> []" and "\<not> P (hd d)"
  shows "takeWhile P (l @ d) = l" and "dropWhile P (l @ d) = d"
  using assms by (induction l) (auto simp: neq_Nil_conv)

lemma getCellName_inj:
  assumes "0 \<le> c" "0 \<le> c'" "0 \<le> r" "0 \<le> r'" and eq: "getCellName c r = getCellName c' r'"
  shows "c = c' \<and> r = r'"
proof -
  let ?P = "\<lambda>x. 65 \<le> (of_char x :: int)"
  let ?l = "indexToColForm c" and ?l' = "indexToColForm c'"
  let ?d = "py_str_nat (nat (r + 1))" and ?d' = "py_str_nat (nat (r' + 1))"
  have n: "getCellName c r = ?l @ ?d" "getCellName c' r' = ?l' @ ?d'"
    using assms(3,4) by (simp_all add: getCellName_def py_str_int_def)
  have l: "\<forall>x \<in> set ?l. ?P x" "\<forall>x \<in> set ?l'. ?P x"
    using letters_indexToColForm by blast+
  have dig: "\<not> ?P (hd (py_str_nat k))" for k
  proof -
    have "hd (py_str_nat k) \<in> set (py_str_nat k)" using py_str_nat_not_empty by simp
    from py_str_nat_digits[OF this] have "(of_char (hd (py_str_nat k)) :: nat) \<le> 57" by simp
    then have "(of_char (hd (py_str_nat k)) :: int) \<le> 57"
      by (metis of_nat_of_char of_nat_le_iff of_nat_numeral)
    then show ?thesis by simp
  qed
  have "takeWhile ?P (?l @ ?d) = ?l" "dropWhile ?P (?l @ ?d) = ?d"
    using letters_then_digits[OF l(1) py_str_nat_not_empty dig] by auto
  moreover have "takeWhile ?P (?l' @ ?d') = ?l'" "dropWhile ?P (?l' @ ?d') = ?d'"
    using letters_then_digits[OF l(2) py_str_nat_not_empty dig] by auto
  ultimately have "?l = ?l'" "?d = ?d'" using eq n by simp_all
  then have "bijective_base26_value ?l = bijective_base26_value ?l'" "nat (r + 1) = nat (r' + 1)"
    using py_str_nat_inj by auto
  then show ?thesis using assms(1-4) by (simp add: value_indexToColForm)
qed


section \<open>What parsing establishes\<close>

lemma getCellName_not_before:
  assumes "0 \<le> rowIndex" "0 \<le> colIndex"
  shows "getCellName colIndex rowIndex \<notin> names_before rowIndex colIndex"
proof
  assume "getCellName colIndex rowIndex \<in> names_before rowIndex colIndex"
  then obtain c r where e: "getCellName colIndex rowIndex = getCellName c r" and
    b: "0 \<le> c" "0 \<le> r" "r < rowIndex \<or> (r = rowIndex \<and> c < colIndex)"
    by (auto simp: names_before_def)
  from getCellName_inj[OF assms(2) b(1) assms(1) b(2) e] b(3) show False by simp
qed

lemma names_before_next:
  "0 \<le> rowIndex \<Longrightarrow> 0 \<le> colIndex \<Longrightarrow>
   insert (getCellName colIndex rowIndex) (names_before rowIndex colIndex) \<subseteq> names_before rowIndex (colIndex + 1)"
  by (auto simp: names_before_def) force

lemma names_before_row: "names_before rowIndex colIndex \<subseteq> names_before (rowIndex + 1) 0"
  by (auto simp: names_before_def) force+

lemma parseInput_cells_parsed:
  "parseInput_cells self rowIndex colIndex cells rowCells = (self', rowCells')
   \<Longrightarrow> 0 \<le> rowIndex \<Longrightarrow> 0 \<le> colIndex \<Longrightarrow> parsed_so_far self rowIndex colIndex rowCells
   \<Longrightarrow> parsed_so_far self' rowIndex (colIndex + int (length cells)) rowCells' \<and> grid self' = grid self"
proof (induction cells arbitrary: self colIndex rowCells)
  case Nil
  then show ?case by simp
next
  case (Cons expression cells)
  let ?n = "getCellName colIndex rowIndex"
  let ?blank = "self\<lparr>valMap := (valMap self)(?n \<mapsto> PStr '''')\<rparr>"
  let ?filled = "self\<lparr>exprMap := (exprMap self)(?n \<mapsto> py_split (py_strip expression))\<rparr>"
  from Cons.prems(4) have
    d: "dom (valMap self) \<union> dom (exprMap self) \<subseteq> names_before rowIndex colIndex" and
    u: "unevaluated self" and
    g: "dom (exprMap self) \<subseteq> set (concat (grid self)) \<union> set rowCells"
    by (auto simp: parsed_so_far_def)
  have fresh: "?n \<notin> dom (valMap self)" "?n \<notin> dom (exprMap self)"
    using getCellName_not_before[OF Cons.prems(2,3)] d by blast+
  have nx: "insert ?n (names_before rowIndex colIndex) \<subseteq> names_before rowIndex (colIndex + 1)"
    using names_before_next[OF Cons.prems(2,3)] .
  have c1: "0 \<le> colIndex + 1" using Cons.prems(3) by simp
  have pb: "parsed_so_far ?blank rowIndex (colIndex + 1) (rowCells @ [?n])"
    unfolding parsed_so_far_def
  proof (intro conjI)
    show "dom (valMap ?blank) \<union> dom (exprMap ?blank) \<subseteq> names_before rowIndex (colIndex + 1)"
      using d nx by auto
    show "unevaluated ?blank"
      using u fresh(2) by (auto simp: unevaluated_def)
    show "dom (exprMap ?blank) \<subseteq> set (concat (grid ?blank)) \<union> set (rowCells @ [?n])"
      using g by auto
  qed
  have pf: "parsed_so_far ?filled rowIndex (colIndex + 1) (rowCells @ [?n])"
    unfolding parsed_so_far_def
  proof (intro conjI)
    show "dom (valMap ?filled) \<union> dom (exprMap ?filled) \<subseteq> names_before rowIndex (colIndex + 1)"
      using d nx by auto
    show "unevaluated ?filled"
      using u fresh(1) by (auto simp: unevaluated_def)
    show "dom (exprMap ?filled) \<subseteq> set (concat (grid ?filled)) \<union> set (rowCells @ [?n])"
      using g by auto
  qed
  show ?case
  proof (cases "py_strip expression = []")
    case True
    with Cons.prems(1) have
      "parseInput_cells ?blank rowIndex (colIndex + 1) cells (rowCells @ [?n]) = (self', rowCells')"
      by (simp add: Let_def)
    from Cons.IH[OF this Cons.prems(2) c1 pb] show ?thesis
      by (simp add: algebra_simps)
  next
    case False
    with Cons.prems(1) have
      "parseInput_cells ?filled rowIndex (colIndex + 1) cells (rowCells @ [?n]) = (self', rowCells')"
      by (simp add: Let_def)
    from Cons.IH[OF this Cons.prems(2) c1 pf] show ?thesis
      by (simp add: algebra_simps)
  qed
qed

lemma parseInput_rows_parsed:
  "parseInput_rows self rowIndex cellCount rows = Inr self'
   \<Longrightarrow> 0 \<le> rowIndex \<Longrightarrow> parsed_so_far self rowIndex 0 []
   \<Longrightarrow> \<exists>rowIndex'. parsed_so_far self' rowIndex' 0 []"
proof (induction rows arbitrary: self rowIndex cellCount)
  case Nil
  then show ?case by auto
next
  case (Cons row rows)
  let ?cells = "py_split_on (CHR '','') (py_strip row)"
  obtain self1 rowCells where c: "parseInput_cells self rowIndex 0 ?cells [] = (self1, rowCells)"
    by (cases "parseInput_cells self rowIndex 0 ?cells []") auto
  let ?self2 = "self1\<lparr>grid := grid self1 @ [rowCells]\<rparr>"
  from Cons.prems(1) c have
    r: "parseInput_rows ?self2 (rowIndex + 1) (cellCount + length ?cells) rows = Inr self'"
    by (simp add: Let_def split: if_splits)
  from parseInput_cells_parsed[OF c Cons.prems(2) _ Cons.prems(3)] have
    p1: "parsed_so_far self1 rowIndex (0 + int (length ?cells)) rowCells" by simp
  have p2: "parsed_so_far ?self2 (rowIndex + 1) 0 []"
    using p1 names_before_row[of rowIndex "0 + int (length ?cells)"]
    unfolding parsed_so_far_def unevaluated_def by auto
  have "0 \<le> rowIndex + 1" using Cons.prems(2) by simp
  from Cons.IH[OF r this p2] show ?case .
qed

lemma parseInput_unevaluated:
  assumes "parseInput init inputText = Inr self"
  shows "unevaluated self \<and> dom (exprMap self) \<subseteq> set (concat (grid self))"
proof -
  have "parsed_so_far init 0 0 []"
    by (simp add: parsed_so_far_def init_def unevaluated_def)
  from parseInput_rows_parsed[OF assms[unfolded parseInput_def] _ this]
  show ?thesis by (auto simp: parsed_so_far_def)
qed

text \<open>
  A run on an input with a reference cycle never writes an output: it ends with an
  exception.
\<close>

lemma reference_cycle_run_fails:
  assumes p: "parseInput init inputText = Inr self" and c: "reference_cycle self cs"
  shows "main repr depth inputText \<noteq> Some (Inr out)"
    and "\<exists>e. main repr depth inputText = Some (Inl e)"
proof -
  from parseInput_unevaluated[OF p] have u: "unevaluated self" and
    g: "dom (exprMap self) \<subseteq> set (concat (grid self))" by auto
  have "set cs \<subseteq> dom (exprMap self)"
  proof
    fix x assume "x \<in> set cs"
    then obtain i where "i < length cs" "cs ! i = x" by (auto simp: in_set_conv_nth)
    then show "x \<in> dom (exprMap self)"
      using c by (auto simp: reference_cycle_def refers_def)
  qed
  with g have s: "set cs \<subseteq> set (concat (grid self))" by blast
  have ne: "evaluate depth self \<noteq> Some (Inr self')" for self'
    using reference_cycle_never_evaluates[OF c s u] .
  then have a: "main repr depth inputText \<noteq> Some (Inr out)" for out
    using p by (auto simp: main_def split: option.splits sum.splits)
  then show "main repr depth inputText \<noteq> Some (Inr out)" .
  from main_returns[of repr depth inputText] obtain x where x: "main repr depth inputText = Some x"
    by auto
  with a show "\<exists>e. main repr depth inputText = Some (Inl e)"
    by (cases x) auto
qed

section \<open>The claims\<close>

text \<open>
  Claim C1 does not hold of the code. The input of the rows \<^verbatim>\<open>2 3 +,6 2 /\<close> and
  \<^verbatim>\<open>8 8 *\<close> does not produce an output: the first cell pushes its two literals and
  then raises \<^verbatim>\<open>TypeError\<close> at the operator, since lines 139 and 140 pass a tuple and a
  bound method to \<^verbatim>\<open>calculate\<close> instead of two popped values.
\<close>

theorem basic_arithmetic_raises_TypeError:
  "main repr depth (''2 3 +,6 2 /'' @ [CHR 0x0A] @ ''8 8 *'') = Some (Inl TypeError)"
  by (simp add: run_simps cell_names)

text \<open>
  Claim C2 does not hold of the code, by the same defect: the cell \<^verbatim>\<open>3 2 -\<close> raises
  \<^verbatim>\<open>TypeError\<close> instead of evaluating to 1.0. Nothing is popped, whatever the operator
  and the values on the deque (lemma \<open>operator_raises_TypeError\<close>).
\<close>

theorem subtraction_raises_TypeError:
  "main repr depth ''3 2 -'' = Some (Inl TypeError)
   \<and> evaluateDFS_loop depth (sheet [[''A1'']] [(''A1'', [''3'', ''2'', ''-''])] []) ''A1''
        [''3'', ''2'', ''-''] [''-''] {''A1''} [PFloat 3, PFloat 2]
      = Some (Inl TypeError, sheet [[''A1'']] [(''A1'', [''3'', ''2'', ''-''])] [], {''A1''})"
  by (simp add: run_simps cell_names)

text \<open>
  Claim C3, as amended. A run on an input whose reference graph has a cycle (of any
  length, a cell that refers to itself included) never writes an output: it ends with an
  exception. Resolving a cell that has no value and is being visited (it is on the active
  resolution path) fails with the circular-reference error that names this cell, and
  changes nothing. Which exception ends the run depends on what is evaluated before a
  cell is entered again. Take a cycle \<open>cs\<close> of distinct cells each of which has the
  reference to the next cell of the cycle as its first token, and at most 100 tokens
  (\<^const>\<open>first_token_cycle\<close>). When it has no more cells than the limit on the depth of
  recursion allows nested calls, resolving its first cell, none of its cells being
  visited, fails with the circular-reference error that names this first cell, the one
  entered again, and the object is unchanged; so does the run when that cell is the first
  one evaluated (\<^const>\<open>first_evaluated\<close>). When it has more cells than that, the resolve
  and the run fail with \<^verbatim>\<open>RecursionError\<close> instead. The input of the rows \<^verbatim>\<open>A2\<close> and
  \<^verbatim>\<open>A1\<close> fails with the message \<^verbatim>\<open>Circular reference at A1\<close>, the limit allowing two
  nested calls.
\<close>

theorem reference_cycle_detected:
  "(parseInput init inputText = Inr self0 \<and> reference_cycle self0 cs0 \<longrightarrow>
      main repr depth inputText \<noteq> Some (Inr out)
      \<and> (\<exists>e. main repr depth inputText = Some (Inl e)))
   \<and> (valMap self cell = None \<and> cell \<in> visiting \<longrightarrow>
      evaluateDFS depth self cell visiting =
        Some (Inl (Exception (''Circular reference at '' @ cell)), self, visiting))
   \<and> (first_token_cycle self cs \<and> set cs \<inter> visiting = {} \<and> length cs \<le> depth \<longrightarrow>
      evaluateDFS depth self (hd cs) visiting =
        Some (Inl (Exception (''Circular reference at '' @ hd cs)), self, visiting \<union> set cs))
   \<and> (first_token_cycle self cs \<and> set cs \<inter> visiting = {} \<and> depth < length cs \<longrightarrow>
      evaluateDFS depth self (hd cs) visiting =
        Some (Inl RecursionError, self, visiting \<union> set (take (Suc depth) cs)))
   \<and> (parseInput init inputText = Inr self0 \<and> first_token_cycle self0 cs0
        \<and> first_evaluated self0 = Some (hd cs0) \<and> length cs0 \<le> depth \<longrightarrow>
      main repr depth inputText = Some (Inl (Exception (''Circular reference at '' @ hd cs0))))
   \<and> (parseInput init inputText = Inr self0 \<and> first_token_cycle self0 cs0
        \<and> first_evaluated self0 = Some (hd cs0) \<and> depth < length cs0 \<longrightarrow>
      main repr depth inputText = Some (Inl RecursionError))
   \<and> main repr (Suc (Suc depth)) (''A2'' @ [CHR 0x0A] @ ''A1'')
       = Some (Inl (Exception ''Circular reference at A1''))"
proof -
  have circular: "evaluateDFS depth s (hd xs) V =
      Some (Inl (Exception (''Circular reference at '' @ hd xs)), s, V \<union> set xs)"
    if a: "first_token_cycle s xs" "set xs \<inter> V = {}" "length xs \<le> depth" for s xs V
  proof -
    from a(1) have c: "xs \<noteq> []" "distinct xs"
      "\<forall>i < length xs. valMap s (xs ! i) = None \<and> isCellReference (xs ! i) = Inr True
              \<and> (\<exists>rest. exprMap s (xs ! i) = Some (xs ! (Suc i mod length xs) # rest)
                         \<and> length rest < maxTokensPerCell)"
      unfolding first_token_cycle_def by blast+
    have "0 < length xs" using c(1) by simp
    from reference_chain[OF c(1,2) a(2) c(3) this, of depth] c(1) a(3)
    show ?thesis by (simp add: hd_conv_nth)
  qed
  have beyond: "evaluateDFS depth s (hd xs) V =
      Some (Inl RecursionError, s, V \<union> set (take (Suc depth) xs))"
    if a: "first_token_cycle s xs" "set xs \<inter> V = {}" "depth < length xs" for s xs V
  proof -
    from a(1) have c: "xs \<noteq> []" "distinct xs"
      "\<forall>i < length xs. valMap s (xs ! i) = None \<and> isCellReference (xs ! i) = Inr True
              \<and> (\<exists>rest. exprMap s (xs ! i) = Some (xs ! (Suc i mod length xs) # rest)
                         \<and> length rest < maxTokensPerCell)"
      unfolding first_token_cycle_def by blast+
    from reference_chain_beyond_limit[OF c(2) a(2) c(3), of 0 depth] c(1) a(3)
    show ?thesis by (simp add: hd_conv_nth)
  qed
  show ?thesis
  proof (intro conjI impI)
    assume a: "parseInput init inputText = Inr self0 \<and> reference_cycle self0 cs0"
    then show "main repr depth inputText \<noteq> Some (Inr out)"
      using reference_cycle_run_fails(1) by blast
    from a show "\<exists>e. main repr depth inputText = Some (Inl e)"
      using reference_cycle_run_fails(2) by blast
  next
    assume "valMap self cell = None \<and> cell \<in> visiting"
    then show "evaluateDFS depth self cell visiting =
        Some (Inl (Exception (''Circular reference at '' @ cell)), self, visiting)"
      by (simp add: evaluateDFS_reentered)
  next
    assume "first_token_cycle self cs \<and> set cs \<inter> visiting = {} \<and> length cs \<le> depth"
    then show "evaluateDFS depth self (hd cs) visiting =
        Some (Inl (Exception (''Circular reference at '' @ hd cs)), self, visiting \<union> set cs)"
      using circular by blast
  next
    assume "first_token_cycle self cs \<and> set cs \<inter> visiting = {} \<and> depth < length cs"
    then show "evaluateDFS depth self (hd cs) visiting =
        Some (Inl RecursionError, self, visiting \<union> set (take (Suc depth) cs))"
      using beyond by blast
  next
    assume a: "parseInput init inputText = Inr self0 \<and> first_token_cycle self0 cs0
        \<and> first_evaluated self0 = Some (hd cs0) \<and> length cs0 \<le> depth"
    then have "evaluateDFS depth self0 (hd cs0) {} =
        Some (Inl (Exception (''Circular reference at '' @ hd cs0)), self0, {} \<union> set cs0)"
      by (intro circular) simp_all
    with a show "main repr depth inputText
        = Some (Inl (Exception (''Circular reference at '' @ hd cs0)))"
      using main_first_raises by blast
  next
    assume a: "parseInput init inputText = Inr self0 \<and> first_token_cycle self0 cs0
        \<and> first_evaluated self0 = Some (hd cs0) \<and> depth < length cs0"
    then have "evaluateDFS depth self0 (hd cs0) {} =
        Some (Inl RecursionError, self0, {} \<union> set (take (Suc depth) cs0))"
      by (intro beyond) simp_all
    with a show "main repr depth inputText = Some (Inl RecursionError)"
      using main_first_raises by blast
  next
    show "main repr (Suc (Suc depth)) (''A2'' @ [CHR 0x0A] @ ''A1'')
        = Some (Inl (Exception ''Circular reference at A1''))"
      by (simp add: run_simps cell_names)
  qed
qed

text \<open>
  The witness is the sheet of the input of the rows \<^verbatim>\<open>A2\<close> and \<^verbatim>\<open>A1\<close>, with the run on
  that input: it fails with the circular-reference error at \<^verbatim>\<open>A1\<close> when the limit allows
  two nested calls, and with \<^verbatim>\<open>RecursionError\<close> when it allows one.
\<close>

theorem reference_cycle_detected_witness:
  "parseInput init (''A2'' @ [CHR 0x0A] @ ''A1'')
       = Inr (sheet [[''A1''], [''A2'']] [(''A2'', [''A1'']), (''A1'', [''A2''])] [])
   \<and> reference_cycle (sheet [[''A1''], [''A2'']] [(''A2'', [''A1'']), (''A1'', [''A2''])] []) [''A1'', ''A2'']
   \<and> main some_repr 2 (''A2'' @ [CHR 0x0A] @ ''A1'') \<noteq> Some (Inr [])
   \<and> (\<exists>e. main some_repr 2 (''A2'' @ [CHR 0x0A] @ ''A1'') = Some (Inl e))
   \<and> valMap (sheet [[''A1''], [''A2'']] [(''A2'', [''A1'']), (''A1'', [''A2''])] []) ''A1'' = None
   \<and> ''A1'' \<in> {''A1'', ''A2''}
   \<and> evaluateDFS 0 (sheet [[''A1''], [''A2'']] [(''A2'', [''A1'']), (''A1'', [''A2''])] []) ''A1''
        {''A1'', ''A2''}
       = Some (Inl (Exception ''Circular reference at A1''),
               sheet [[''A1''], [''A2'']] [(''A2'', [''A1'']), (''A1'', [''A2''])] [], {''A1'', ''A2''})
   \<and> first_token_cycle (sheet [[''A1''], [''A2'']] [(''A2'', [''A1'']), (''A1'', [''A2''])] []) [''A1'', ''A2'']
   \<and> set [''A1'', ''A2''] \<inter> {} = {}
   \<and> length [''A1'', ''A2''] \<le> (2::nat)
   \<and> evaluateDFS 2 (sheet [[''A1''], [''A2'']] [(''A2'', [''A1'']), (''A1'', [''A2''])] []) ''A1'' {}
       = Some (Inl (Exception ''Circular reference at A1''),
               sheet [[''A1''], [''A2'']] [(''A2'', [''A1'']), (''A1'', [''A2''])] [], {''A1'', ''A2''})
   \<and> (1::nat) < length [''A1'', ''A2'']
   \<and> evaluateDFS 1 (sheet [[''A1''], [''A2'']] [(''A2'', [''A1'']), (''A1'', [''A2''])] []) ''A1'' {}
       = Some (Inl RecursionError,
               sheet [[''A1''], [''A2'']] [(''A2'', [''A1'']), (''A1'', [''A2''])] [], {''A1'', ''A2''})
   \<and> first_evaluated (sheet [[''A1''], [''A2'']] [(''A2'', [''A1'']), (''A1'', [''A2''])] []) = Some ''A1''
   \<and> main some_repr 2 (''A2'' @ [CHR 0x0A] @ ''A1'') = Some (Inl (Exception ''Circular reference at A1''))
   \<and> main some_repr 1 (''A2'' @ [CHR 0x0A] @ ''A1'') = Some (Inl RecursionError)"
proof -
  let ?s = "sheet [[''A1''], [''A2'']] [(''A2'', [''A1'']), (''A1'', [''A2''])] []"
  let ?cs = "[''A1'', ''A2'']"
  let ?in = "''A2'' @ [CHR 0x0A] @ ''A1''"
  have h0: "valMap ?s ''A1'' = None" "''A1'' \<in> {''A1'', ''A2''}"
    by (simp_all add: sheet_def)
  have h1: "set ?cs \<inter> {} = {}" "length ?cs \<le> (2::nat)" "(1::nat) < length ?cs"
    by simp_all
  have h2: "first_token_cycle ?s ?cs"
    unfolding first_token_cycle_def
    by (simp add: sheet_def run_simps All_less_Suc numeral_2_eq_2 del: evaluateDFS.simps)
  have h3: "reference_cycle ?s ?cs"
    unfolding reference_cycle_def refers_def
    by (simp add: sheet_def run_simps All_less_Suc numeral_2_eq_2 del: evaluateDFS.simps)
  have h4: "first_evaluated ?s = Some ''A1''" "first_evaluated ?s = Some (hd ?cs)"
    by (simp_all add: first_evaluated_def sheet_def)
  have p: "parseInput init ?in = Inr ?s"
    by (simp add: run_simps cell_names sheet_def fun_upd_twist)
  note t2 = reference_cycle_detected[where inputText = ?in and ?self0.0 = ?s and ?cs0.0 = ?cs
      and repr = some_repr and depth = 2 and out = "[]" and self = ?s and cell = "''A1''"
      and visiting = "{}" and cs = ?cs]
  note t1 = reference_cycle_detected[where inputText = ?in and ?self0.0 = ?s and ?cs0.0 = ?cs
      and repr = some_repr and depth = 1 and out = "[]" and self = ?s and cell = "''A1''"
      and visiting = "{}" and cs = ?cs]
  note t0 = reference_cycle_detected[where inputText = ?in and ?self0.0 = ?s and ?cs0.0 = ?cs
      and repr = some_repr and depth = 0 and out = "[]" and self = ?s and cell = "''A1''"
      and visiting = "{''A1'', ''A2''}" and cs = ?cs]
  from t2 p h3 have g: "main some_repr 2 ?in \<noteq> Some (Inr [])" "\<exists>e. main some_repr 2 ?in = Some (Inl e)"
    by blast+
  from t0 h0 have e0: "evaluateDFS 0 ?s ''A1'' {''A1'', ''A2''} =
          Some (Inl (Exception ''Circular reference at A1''), ?s, {''A1'', ''A2''})"
    by simp
  from t2 h1 h2 have e2: "evaluateDFS 2 ?s ''A1'' {} =
          Some (Inl (Exception ''Circular reference at A1''), ?s, {''A1'', ''A2''})"
    by simp
  from t1 h1 h2 have e1: "evaluateDFS 1 ?s ''A1'' {} = Some (Inl RecursionError, ?s, {''A1'', ''A2''})"
    by simp
  from t2 p h1 h2 h4 have m2: "main some_repr 2 ?in = Some (Inl (Exception ''Circular reference at A1''))"
    by simp
  from t1 p h1 h2 h4 have m1: "main some_repr 1 ?in = Some (Inl RecursionError)"
    by simp
  from h0 h1 h2 h3 h4(1) p g e0 e1 e2 m1 m2 show ?thesis by blast
qed

text \<open>
  Claim C3 as stated fails: in the input \<^verbatim>\<open>&,B1\<close> the cell \<^verbatim>\<open>B1\<close> refers to itself, and
  the run fails at the cell \<^verbatim>\<open>A1\<close>, evaluated first, with the invalid-token error.
\<close>

theorem reference_cycle_counterexample:
  "parseInput init ''&,B1'' = Inr (sheet [[''A1'', ''B1'']] [(''B1'', [''B1'']), (''A1'', [''&''])] [])
   \<and> reference_cycle (sheet [[''A1'', ''B1'']] [(''B1'', [''B1'']), (''A1'', [''&''])] []) [''B1'']
   \<and> first_evaluated (sheet [[''A1'', ''B1'']] [(''B1'', [''B1'']), (''A1'', [''&''])] []) = Some ''A1''
   \<and> main some_repr 1 ''&,B1''
       = Some (Inl (Exception (''Invalid token '' @ [CHR 0x27] @ ''&'' @ [CHR 0x27] @ '' in A1'')))"
proof -
  have "reference_cycle (sheet [[''A1'', ''B1'']] [(''B1'', [''B1'']), (''A1'', [''&''])] []) [''B1'']"
    unfolding reference_cycle_def refers_def
    by (simp add: sheet_def run_simps del: evaluateDFS.simps)
  moreover have
    "first_evaluated (sheet [[''A1'', ''B1'']] [(''B1'', [''B1'']), (''A1'', [''&''])] []) = Some ''A1''"
    by (simp add: first_evaluated_def sheet_def)
  moreover have
    "parseInput init ''&,B1'' = Inr (sheet [[''A1'', ''B1'']] [(''B1'', [''B1'']), (''A1'', [''&''])] [])"
    "main some_repr 1 ''&,B1''
       = Some (Inl (Exception (''Invalid token '' @ [CHR 0x27] @ ''&'' @ [CHR 0x27] @ '' in A1'')))"
    by (simp_all add: run_simps cell_names sheet_def fun_upd_twist)
  ultimately show ?thesis by blast
qed

text \<open>
  Claim C4 does not hold of the code. The run on the cell \<^verbatim>\<open>1 0 /\<close>, which divides by a
  right operand equal to zero, does not end with a division-by-zero error: it raises
  \<^verbatim>\<open>TypeError\<close> at the operator, by the defect of claims C1 and C2. Lines 139 and 140
  pass a tuple and a bound method to \<^verbatim>\<open>calculate\<close>, whatever is on the deque (here 1 and
  0), so the test of line 173 compares the bound method with zero and the division of
  line 175 raises.
\<close>

theorem division_by_zero_raises_TypeError:
  "main repr depth ''1 0 /'' = Some (Inl TypeError)
   \<and> evaluateDFS_loop depth (sheet [[''A1'']] [(''A1'', [''1'', ''0'', ''/''])] []) ''A1''
        [''1'', ''0'', ''/''] [''/''] {''A1''} [PFloat 1, PFloat 0]
      = Some (Inl TypeError, sheet [[''A1'']] [(''A1'', [''1'', ''0'', ''/''])] [], {''A1''})
   \<and> calculate (PTuple [PBuiltinMethod]) PBuiltinMethod ''/'' = Inl TypeError"
  by (simp add: run_simps cell_names)

text \<open>
  Claim C5. Once the value map has an entry for a cell, resolving that cell returns the
  stored value at once: whatever is left of the limit on the depth of recursion and with
  any visiting set, and the object is left as it is, so no token is interpreted. No
  evaluation, of this cell or of another, changes the entry: after it the entry is the
  same and is returned again; the same holds of the evaluation of the whole grid. A cell
  with an expression that has been resolved has its value stored, so resolving it a
  second time (directly or through a reference) returns the same value. The evaluations
  spoken of do return, and not with \<^verbatim>\<open>RecursionError\<close>, when the limit allows as many
  nested calls as there are cells with an expression that are not being visited.
\<close>

theorem valMap_entry_final:
  "(valMap self cell = Some v \<longrightarrow>
      evaluateDFS depth self cell visiting = Some (Inr v, self, visiting))
   \<and> (valMap self cell = Some v \<and> evaluateDFS depth self other visiting = Some (r, self', visiting') \<longrightarrow>
      valMap self' cell = Some v \<and> evaluateDFS depth' self' cell visiting'' = Some (Inr v, self', visiting''))
   \<and> (exprMap self cell \<noteq> None \<and> evaluateDFS depth self cell visiting = Some (Inr v, self', visiting') \<longrightarrow>
      valMap self' cell = Some v \<and> evaluateDFS depth' self' cell visiting'' = Some (Inr v, self', visiting''))
   \<and> (valMap self cell = Some v \<and> evaluate depth self = Some (Inr self') \<longrightarrow> valMap self' cell = Some v)
   \<and> (finite (dom (exprMap self)) \<and> card (dom (exprMap self) - visiting) \<le> depth \<longrightarrow>
      evaluateDFS depth self other visiting \<noteq> None
      \<and> (\<forall>s V. evaluateDFS depth self other visiting \<noteq> Some (Inl RecursionError, s, V)))"
proof (intro conjI impI allI)
  assume "valMap self cell = Some v"
  then show "evaluateDFS depth self cell visiting = Some (Inr v, self, visiting)"
    by (rule evaluateDFS_memo)
next
  assume "valMap self cell = Some v \<and> evaluateDFS depth self other visiting = Some (r, self', visiting')"
  then show k: "valMap self' cell = Some v"
    using evaluateDFS_keeps_entry by blast
  then show "evaluateDFS depth' self' cell visiting'' = Some (Inr v, self', visiting'')"
    by (rule evaluateDFS_memo)
next
  assume "exprMap self cell \<noteq> None \<and> evaluateDFS depth self cell visiting = Some (Inr v, self', visiting')"
  then show k: "valMap self' cell = Some v"
    using evaluateDFS_stores by blast
  then show "evaluateDFS depth' self' cell visiting'' = Some (Inr v, self', visiting'')"
    by (rule evaluateDFS_memo)
next
  assume "valMap self cell = Some v \<and> evaluate depth self = Some (Inr self')"
  then show "valMap self' cell = Some v"
    using evaluate_keeps_entry by blast
next
  assume a: "finite (dom (exprMap self)) \<and> card (dom (exprMap self) - visiting) \<le> depth"
  show "evaluateDFS depth self other visiting \<noteq> None"
    by (rule evaluateDFS_returns)
  fix s V
  from a show "evaluateDFS depth self other visiting \<noteq> Some (Inl RecursionError, s, V)"
    using evaluateDFS_within_limit by blast
qed

text \<open>
  The witness is the sheet of the input \<^verbatim>\<open>2\<close>, \<^verbatim>\<open>A1\<close> (two rows) once \<^verbatim>\<open>A1\<close> has been
  evaluated: resolving \<^verbatim>\<open>A2\<close> reads the entry of \<^verbatim>\<open>A1\<close> and leaves it.
\<close>

theorem valMap_entry_final_witness:
  "valMap (sheet [[''A1''], [''A2'']] [(''A1'', [''2'']), (''A2'', [''A1''])] [(''A1'', PFloat 2)]) ''A1''
     = Some (PFloat 2)
   \<and> evaluateDFS 1 (sheet [[''A1''], [''A2'']] [(''A1'', [''2'']), (''A2'', [''A1''])] [(''A1'', PFloat 2)])
        ''A2'' {}
     = Some (Inr (PFloat 2),
             sheet [[''A1''], [''A2'']] [(''A1'', [''2'']), (''A2'', [''A1''])]
               [(''A2'', PFloat 2), (''A1'', PFloat 2)], {})
   \<and> evaluate 1 (sheet [[''A1''], [''A2'']] [(''A1'', [''2'']), (''A2'', [''A1''])] [(''A1'', PFloat 2)])
     = Some (Inr (sheet [[''A1''], [''A2'']] [(''A1'', [''2'']), (''A2'', [''A1''])]
               [(''A2'', PFloat 2), (''A1'', PFloat 2)]))
   \<and> valMap (sheet [[''A1''], [''A2'']] [(''A1'', [''2'']), (''A2'', [''A1''])]
               [(''A2'', PFloat 2), (''A1'', PFloat 2)]) ''A1'' = Some (PFloat 2)
   \<and> evaluateDFS 0 (sheet [[''A1''], [''A2'']] [(''A1'', [''2'']), (''A2'', [''A1''])]
               [(''A2'', PFloat 2), (''A1'', PFloat 2)]) ''A1'' {''A2''}
     = Some (Inr (PFloat 2),
             sheet [[''A1''], [''A2'']] [(''A1'', [''2'']), (''A2'', [''A1''])]
               [(''A2'', PFloat 2), (''A1'', PFloat 2)], {''A2''})
   \<and> exprMap (sheet [[''A1''], [''A2'']] [(''A1'', [''2'']), (''A2'', [''A1''])] [(''A1'', PFloat 2)]) ''A2''
     \<noteq> None
   \<and> valMap (sheet [[''A1''], [''A2'']] [(''A1'', [''2'']), (''A2'', [''A1''])]
               [(''A2'', PFloat 2), (''A1'', PFloat 2)]) ''A2'' = Some (PFloat 2)
   \<and> finite (dom (exprMap (sheet [[''A1''], [''A2'']] [(''A1'', [''2'']), (''A2'', [''A1''])]
               [(''A1'', PFloat 2)])))
   \<and> card (dom (exprMap (sheet [[''A1''], [''A2'']] [(''A1'', [''2'']), (''A2'', [''A1''])]
               [(''A1'', PFloat 2)])) - {}) \<le> 2
   \<and> evaluateDFS 2 (sheet [[''A1''], [''A2'']] [(''A1'', [''2'']), (''A2'', [''A1''])] [(''A1'', PFloat 2)])
        ''A2'' {} \<noteq> None
   \<and> evaluateDFS 2 (sheet [[''A1''], [''A2'']] [(''A1'', [''2'']), (''A2'', [''A1''])] [(''A1'', PFloat 2)])
        ''A2'' {}
     \<noteq> Some (Inl RecursionError,
             sheet [[''A1''], [''A2'']] [(''A1'', [''2'']), (''A2'', [''A1''])] [(''A1'', PFloat 2)], {''A2''})"
proof -
  let ?s = "sheet [[''A1''], [''A2'']] [(''A1'', [''2'']), (''A2'', [''A1''])] [(''A1'', PFloat 2)]"
  let ?s' = "sheet [[''A1''], [''A2'']] [(''A1'', [''2'']), (''A2'', [''A1''])]
               [(''A2'', PFloat 2), (''A1'', PFloat 2)]"
  have h: "valMap ?s ''A1'' = Some (PFloat 2)" "exprMap ?s ''A2'' \<noteq> None"
    by (simp_all add: sheet_def)
  have e: "evaluateDFS 1 ?s ''A2'' {} = Some (Inr (PFloat 2), ?s', {})"
    by (simp add: run_simps sheet_def fun_upd_twist)
  have g: "evaluate 1 ?s = Some (Inr ?s')"
    by (simp add: run_simps sheet_def fun_upd_twist)
  have "dom (exprMap ?s) = {''A1'', ''A2''}"
    by (auto simp: sheet_def split: if_splits)
  then have f: "finite (dom (exprMap ?s))" "card (dom (exprMap ?s) - {}) \<le> 2"
    by simp_all
  note t1 = valMap_entry_final[of ?s "''A1''" "PFloat 2" 1 "{}" "''A2''" "Inr (PFloat 2)" ?s' "{}" 0 "{''A2''}"]
  note t2 = valMap_entry_final[of ?s "''A2''" "PFloat 2" 1 "{}" "''A2''" "Inr (PFloat 2)" ?s' "{}" 0 "{''A2''}"]
  note t3 = valMap_entry_final[of ?s "''A1''" "PFloat 2" 2 "{}" "''A2''" "Inr (PFloat 2)" ?s' "{}" 0 "{''A2''}"]
  from t1 t2 t3 h e g f show ?thesis by blast
qed

text \<open>
  Claim C6. In an object as \<^verbatim>\<open>parseInput\<close> builds it and evaluation keeps it
  (\<^const>\<open>blanks_empty\<close>), resolving a cell that has no expression returns the empty string
  and changes neither the value map nor the visiting set; it raises nothing. The input of
  a row \<^verbatim>\<open>,\<close> and a row \<^verbatim>\<open>A1\<close> gives the output of the two rows \<^verbatim>\<open>,\<close> and the empty
  row (the limit on the depth of recursion allowing the nested call for the reference):
  the text written ends each row with a newline, and its rows joined by a newline are the
  output that the claim states. The test of the repository compares the two texts
  without their surrounding white space, where they agree as well.
\<close>

theorem blank_cell_resolves_empty:
  assumes "blanks_empty self" and "exprMap self cell = None" and "visiting \<subseteq> dom (exprMap self)"
  shows "evaluateDFS depth self cell visiting = Some (Inr (PStr ''''), self, visiting)
       \<and> main repr (Suc depth) ('','' @ [CHR 0x0A] @ ''A1'') = Some (Inr ('','' @ [CHR 0x0A, CHR 0x0A]))
       \<and> rows_joined ('','' @ [CHR 0x0A, CHR 0x0A]) = '','' @ [CHR 0x0A]
       \<and> py_strip ('','' @ [CHR 0x0A, CHR 0x0A]) = py_strip ('','' @ [CHR 0x0A])"
proof -
  have nv: "cell \<notin> visiting" using assms(2,3) by auto
  have "valMap self cell = None \<or> valMap self cell = Some (PStr '''')"
    using assms(1,2) by (simp add: blanks_empty_def)
  then have "evaluateDFS depth self cell visiting = Some (Inr (PStr ''''), self, visiting)"
    using nv assms(2) by (auto simp: evaluateDFS.simps)
  moreover have "main repr (Suc depth) ('','' @ [CHR 0x0A] @ ''A1'') = Some (Inr ('','' @ [CHR 0x0A, CHR 0x0A]))"
    by (simp add: run_simps cell_names)
  moreover have "rows_joined ('','' @ [CHR 0x0A, CHR 0x0A]) = '','' @ [CHR 0x0A]"
    by (simp add: rows_joined_def)
  moreover have "py_strip ('','' @ [CHR 0x0A, CHR 0x0A]) = py_strip ('','' @ [CHR 0x0A])"
    by (simp add: py_strip_def py_isspace_def)
  ultimately show ?thesis by simp
qed

text \<open>
  The witness is the sheet of that input: \<^verbatim>\<open>A1\<close> is blank there, and it is resolved while
  \<^verbatim>\<open>A2\<close> is being visited.
\<close>

theorem blank_cell_resolves_empty_witness:
  "blanks_empty (sheet [[''A1'', ''B1''], [''A2'']] [(''A2'', [''A1''])] [(''B1'', PStr ''''), (''A1'', PStr '''')])
   \<and> exprMap (sheet [[''A1'', ''B1''], [''A2'']] [(''A2'', [''A1''])] [(''B1'', PStr ''''), (''A1'', PStr '''')]) ''A1'' = None
   \<and> {''A2''} \<subseteq> dom (exprMap (sheet [[''A1'', ''B1''], [''A2'']] [(''A2'', [''A1''])]
                                  [(''B1'', PStr ''''), (''A1'', PStr '''')]))
   \<and> parseInput init ('','' @ [CHR 0x0A] @ ''A1'')
       = Inr (sheet [[''A1'', ''B1''], [''A2'']] [(''A2'', [''A1''])] [(''B1'', PStr ''''), (''A1'', PStr '''')])
   \<and> evaluateDFS 0 (sheet [[''A1'', ''B1''], [''A2'']] [(''A2'', [''A1''])] [(''B1'', PStr ''''), (''A1'', PStr '''')])
        ''A1'' {''A2''}
       = Some (Inr (PStr ''''),
               sheet [[''A1'', ''B1''], [''A2'']] [(''A2'', [''A1''])] [(''B1'', PStr ''''), (''A1'', PStr '''')],
               {''A2''})
   \<and> main some_repr 1 ('','' @ [CHR 0x0A] @ ''A1'') = Some (Inr ('','' @ [CHR 0x0A, CHR 0x0A]))
   \<and> rows_joined ('','' @ [CHR 0x0A, CHR 0x0A]) = '','' @ [CHR 0x0A]"
proof -
  let ?s = "sheet [[''A1'', ''B1''], [''A2'']] [(''A2'', [''A1''])] [(''B1'', PStr ''''), (''A1'', PStr '''')]"
  have p: "parseInput init ('','' @ [CHR 0x0A] @ ''A1'') = Inr ?s"
    by (simp add: run_simps cell_names sheet_def)
  have b: "blanks_empty ?s"
    using p by (rule parseInput_blanks_empty)
  have e: "exprMap ?s ''A1'' = None" and d: "{''A2''} \<subseteq> dom (exprMap ?s)"
    by (simp_all add: sheet_def)
  from blank_cell_resolves_empty[OF b e d, of 0 some_repr] p b e d
  show ?thesis by (simp del: evaluateDFS.simps)
qed

text \<open>
  Claim C7. A cell with more than 100 tokens that is resolved (it has no value yet and is
  not being visited) fails with the message that names the cell and the limit. The result
  does not depend on what the tokens are, the object is unchanged, and inside the loop the
  same error is raised whatever the deque holds: no token is processed.
\<close>

theorem too_many_tokens:
  assumes "valMap self cell = None" and "cell \<notin> visiting"
    and "exprMap self cell = Some ops" and "length ops > 100"
  shows "evaluateDFS depth self cell visiting =
           Some (Inl (Exception (''Expression too long in '' @ cell @ '' - max of 100 tokens in a cell'')),
                 self, insert cell visiting)
       \<and> evaluateDFS_loop depth self cell ops (op # rest) visiting queue =
           Some (Inl (Exception (''Expression too long in '' @ cell @ '' - max of 100 tokens in a cell'')),
                 self, visiting)"
proof -
  from assms(4) obtain op' rest' where o: "ops = op' # rest'"
    by (cases ops) auto
  have "evaluateDFS_loop depth self cell ops ops (insert cell visiting) [] =
           Some (Inl (Exception (''Expression too long in '' @ cell @ '' - max of 100 tokens in a cell'')),
                 self, insert cell visiting)"
    using too_long_step[OF assms(4), of depth self cell op' rest' "insert cell visiting" "[]"] o by simp
  then show ?thesis
    using assms(1,2,3) too_long_step[OF assms(4)] by (simp add: evaluateDFS.simps)
qed

text \<open>
  The witness is a single cell of 500 tokens \<^verbatim>\<open>1\<close>, with the run on the input that the
  repository's test builds: these tokens joined by spaces.
\<close>

theorem too_many_tokens_witness:
  "valMap (sheet [[''A1'']] [(''A1'', replicate 500 ''1'')] []) ''A1'' = None
   \<and> ''A1'' \<notin> ({} :: string set)
   \<and> exprMap (sheet [[''A1'']] [(''A1'', replicate 500 ''1'')] []) ''A1'' = Some (replicate 500 ''1'')
   \<and> length (replicate 500 ''1'') > 100
   \<and> evaluateDFS 0 (sheet [[''A1'']] [(''A1'', replicate 500 ''1'')] []) ''A1'' {} =
        Some (Inl (Exception ''Expression too long in A1 - max of 100 tokens in a cell''),
              sheet [[''A1'']] [(''A1'', replicate 500 ''1'')] [], {''A1''})
   \<and> parseInput init (py_join '' '' (replicate 500 ''1''))
        = Inr (sheet [[''A1'']] [(''A1'', replicate 500 ''1'')] [])
   \<and> main some_repr 0 (py_join '' '' (replicate 500 ''1'')) =
        Some (Inl (Exception ''Expression too long in A1 - max of 100 tokens in a cell''))"
proof -
  let ?s = "sheet [[''A1'']] [(''A1'', replicate 500 ''1'')] []"
  have h: "valMap ?s ''A1'' = None" "''A1'' \<notin> ({} :: string set)"
    "exprMap ?s ''A1'' = Some (replicate 500 ''1'')" "length (replicate 500 ''1'') > 100"
    by (simp_all add: sheet_def)
  note t = too_many_tokens[OF h, of 0 "''1''" "[]" "[]"]
  then have e: "evaluateDFS 0 ?s ''A1'' {} =
        Some (Inl (Exception ''Expression too long in A1 - max of 100 tokens in a cell''), ?s, {''A1''})"
    by simp
  have g: "evaluate 0 ?s = Some (Inl (Exception ''Expression too long in A1 - max of 100 tokens in a cell''))"
    using e h(3) by (simp add: evaluate_def sheet_def)
  have p: "parseInput init (py_join '' '' (replicate 500 ''1'')) = Inr ?s"
    by (rule parseInput_one_cell) (simp_all add: py_isspace_def)
  have "main some_repr 0 (py_join '' '' (replicate 500 ''1'')) =
        Some (Inl (Exception ''Expression too long in A1 - max of 100 tokens in a cell''))"
    by (simp add: main_def p g)
  with h e p show ?thesis by blast
qed

text \<open>
  Claim C8 does not hold of the code. \<^verbatim>\<open>str.isdigit\<close> accepts the superscript digits,
  which \<^verbatim>\<open>int\<close> rejects: on the token made of \<open>A\<close> and superscript two (code point 178)
  \<^verbatim>\<open>isCellReference\<close> raises \<^verbatim>\<open>ValueError\<close> instead of answering no, and so does a run
  on that cell. Lemmas \<open>isCellReference_True_iff\<close> and \<open>isCellReference_raises_iff\<close> say
  when it answers yes and when it raises.
\<close>

theorem isCellReference_raises_ValueError:
  "isCellReference [CHR ''A'', CHR 0xB2] = Inl ValueError
   \<and> main repr depth [CHR ''A'', CHR 0xB2] = Some (Inl ValueError)"
  by (simp add: run_simps cell_names)

text \<open>
  Claim C9. For every index \<open>i \<ge> 0\<close>, \<^const>\<open>indexToColForm\<close> returns the bijective
  base-26 label of \<open>i\<close>: a word over the letters \<open>A\<close> to \<open>Z\<close> whose value as a bijective
  base-26 numeral is \<open>i + 1\<close>. The indices 0, 25, 26, 27, 51 and 52 give \<open>A\<close>, \<open>Z\<close>,
  \<open>AA\<close>, \<open>AB\<close>, \<open>AZ\<close> and \<open>BA\<close>, and two indices that are not negative have the same
  label only when they are equal.
\<close>

theorem indexToColForm_bijective_base26:
  assumes "0 \<le> i" and "0 \<le> j"
  shows "indexToColForm 0 = ''A'' \<and> indexToColForm 25 = ''Z'' \<and> indexToColForm 26 = ''AA''
       \<and> indexToColForm 27 = ''AB'' \<and> indexToColForm 51 = ''AZ'' \<and> indexToColForm 52 = ''BA''
       \<and> bijective_base26_value (indexToColForm i) = i + 1
       \<and> (\<forall>c \<in> set (indexToColForm i). 65 \<le> (of_char c :: int) \<and> (of_char c :: int) \<le> 90)
       \<and> (indexToColForm i = indexToColForm j \<longleftrightarrow> i = j)"
proof -
  have ex: "indexToColForm 0 = ''A''" "indexToColForm 25 = ''Z''" "indexToColForm 26 = ''AA''"
    "indexToColForm 27 = ''AB''" "indexToColForm 51 = ''AZ''" "indexToColForm 52 = ''BA''"
    by (simp_all add: indexToColForm_def char_of_def)
  have v: "bijective_base26_value (indexToColForm i) = i + 1"
    using assms(1) by (simp add: value_indexToColForm)
  have inj: "indexToColForm i = indexToColForm j \<longleftrightarrow> i = j"
  proof
    assume "indexToColForm i = indexToColForm j"
    then have "bijective_base26_value (indexToColForm i) = bijective_base26_value (indexToColForm j)"
      by simp
    then show "i = j" using assms by (simp add: value_indexToColForm)
  qed simp
  show ?thesis using ex v inj letters_indexToColForm by blast
qed

text \<open>
  The witness takes the indices 701 and 26, whose labels \<open>ZZ\<close> and \<open>AA\<close> differ.
\<close>

theorem indexToColForm_bijective_base26_witness:
  "(0::int) \<le> 701 \<and> (0::int) \<le> 26
   \<and> bijective_base26_value (indexToColForm 701) = 702
   \<and> indexToColForm 701 \<noteq> indexToColForm 26"
  using indexToColForm_bijective_base26 [of 701 26] by auto

text \<open>
  Claim C10, as amended. A token as \<^verbatim>\<open>split()\<close> yields it (not empty, without white
  space) that is reached by the loop, is none of the four operators and is no cell
  reference, is pushed as the float it denotes exactly when it is in the language of the
  pattern of line 146: an optional sign, any number of digits (none is allowed), and
  optionally a dot followed by one or more digits. Any other such token fails with the
  invalid-token message naming the token and the cell.
\<close>

theorem numeral_token_step:
  assumes "length ops \<le> maxTokensPerCell" and "op \<notin> {''+'', ''-'', ''*'', ''/''}"
    and "isCellReference op = Inr False" and "op \<noteq> []" and "list_all (\<lambda>c. \<not> py_isspace c) op"
  shows "(pattern_numeral op \<longrightarrow>
            (\<exists>x. py_float op = Inr x
               \<and> evaluateDFS_loop depth self cell ops (op # rest) visiting queue
                   = evaluateDFS_loop depth self cell ops rest visiting (queue @ [PFloat x])))
       \<and> (\<not> pattern_numeral op \<longrightarrow>
            evaluateDFS_loop depth self cell ops (op # rest) visiting queue
              = Some (Inl (Exception (''Invalid token '' @ [CHR 0x27] @ op @ [CHR 0x27] @ '' in '' @ cell)),
                      self, visiting))"
proof -
  have ns: "\<forall>c \<in> set op. \<not> py_isspace c"
    using assms(5) by (simp add: list_all_iff)
  show ?thesis
  proof (intro conjI impI)
    assume p: "pattern_numeral op"
    then have m: "numeral_match op" using numeral_match_iff[OF ns] by simp
    have "op \<notin> {[], ''+'', ''-''}" using assms(2,4) by simp
    from py_float_numeral[OF p ns this] obtain x where x: "py_float op = Inr x" ..
    have "evaluateDFS_loop depth self cell ops (op # rest) visiting queue
            = evaluateDFS_loop depth self cell ops rest visiting (queue @ [PFloat x])"
      using assms(1,2,3) m x by (simp del: insert_iff)
    with x show "\<exists>x. py_float op = Inr x
        \<and> evaluateDFS_loop depth self cell ops (op # rest) visiting queue
            = evaluateDFS_loop depth self cell ops rest visiting (queue @ [PFloat x])"
      by blast
  next
    assume "\<not> pattern_numeral op"
    then have "\<not> numeral_match op" using numeral_match_iff[OF ns] by simp
    then show "evaluateDFS_loop depth self cell ops (op # rest) visiting queue
        = Some (Inl (Exception (''Invalid token '' @ [CHR 0x27] @ op @ [CHR 0x27] @ '' in '' @ cell)),
                self, visiting)"
      using assms(1,2,3) by (simp del: insert_iff)
  qed
qed

text \<open>The witness takes the token \<^verbatim>\<open>.5\<close>, which is pushed as one half, and the token \<^verbatim>\<open>&\<close>.\<close>

theorem numeral_token_step_witness:
  "length [''.5''] \<le> maxTokensPerCell \<and> ''.5'' \<notin> {''+'', ''-'', ''*'', ''/''}
   \<and> isCellReference ''.5'' = Inr False \<and> ''.5'' \<noteq> [] \<and> list_all (\<lambda>c. \<not> py_isspace c) ''.5''
   \<and> pattern_numeral ''.5''
   \<and> evaluateDFS_loop 0 (sheet [[''A1'']] [(''A1'', [''.5''])] []) ''A1'' [''.5''] [''.5''] {''A1''} []
       = Some (Inr [PFloat (1 / 2)], sheet [[''A1'']] [(''A1'', [''.5''])] [], {''A1''})
   \<and> length [''&''] \<le> maxTokensPerCell \<and> ''&'' \<notin> {''+'', ''-'', ''*'', ''/''}
   \<and> isCellReference ''&'' = Inr False \<and> ''&'' \<noteq> [] \<and> list_all (\<lambda>c. \<not> py_isspace c) ''&''
   \<and> \<not> pattern_numeral ''&''
   \<and> evaluateDFS_loop 0 (sheet [[''A1'']] [(''A1'', [''&''])] []) ''A1'' [''&''] [''&''] {''A1''} []
       = Some (Inl (Exception (''Invalid token '' @ [CHR 0x27] @ ''&'' @ [CHR 0x27] @ '' in '' @ ''A1'')),
               sheet [[''A1'']] [(''A1'', [''&''])] [], {''A1''})"
proof -
  have a: "length [''.5''] \<le> maxTokensPerCell" "''.5'' \<notin> {''+'', ''-'', ''*'', ''/''}"
    "isCellReference ''.5'' = Inr False" "''.5'' \<noteq> []" "list_all (\<lambda>c. \<not> py_isspace c) ''.5''"
    by (simp_all add: run_simps del: evaluateDFS.simps)
  have b: "length [''&''] \<le> maxTokensPerCell" "''&'' \<notin> {''+'', ''-'', ''*'', ''/''}"
    "isCellReference ''&'' = Inr False" "''&'' \<noteq> []" "list_all (\<lambda>c. \<not> py_isspace c) ''&''"
    by (simp_all add: run_simps del: evaluateDFS.simps)
  have pa: "pattern_numeral ''.5''"
    unfolding numeral_core_iff[symmetric] by (simp add: numeral_core_def py_isdecimal_def)
  have pb: "\<not> pattern_numeral ''&''"
    unfolding numeral_core_iff[symmetric] by (simp add: numeral_core_def py_isdecimal_def)
  have f: "py_float ''.5'' = Inr (1 / 2)"
    by (simp add: run_simps del: evaluateDFS.simps)
  note ta = numeral_token_step[OF a, of 0 "sheet [[''A1'']] [(''A1'', [''.5''])] []" "''A1''" "[]" "{''A1''}" "[]"]
  note tb = numeral_token_step[OF b, of 0 "sheet [[''A1'']] [(''A1'', [''&''])] []" "''A1''" "[]" "{''A1''}" "[]"]
  from ta pa obtain x where x: "py_float ''.5'' = Inr x" and
    l: "evaluateDFS_loop 0 (sheet [[''A1'']] [(''A1'', [''.5''])] []) ''A1'' [''.5''] [''.5''] {''A1''} []
        = evaluateDFS_loop 0 (sheet [[''A1'']] [(''A1'', [''.5''])] []) ''A1'' [''.5''] [] {''A1''}
            ([] @ [PFloat x])"
    by blast
  from x f have xv: "x = 1 / 2" by simp
  have ea:
    "evaluateDFS_loop 0 (sheet [[''A1'']] [(''A1'', [''.5''])] []) ''A1'' [''.5''] [''.5''] {''A1''} []
       = Some (Inr [PFloat (1 / 2)], sheet [[''A1'']] [(''A1'', [''.5''])] [], {''A1''})"
    unfolding l xv by simp
  from tb pb have eb:
    "evaluateDFS_loop 0 (sheet [[''A1'']] [(''A1'', [''&''])] []) ''A1'' [''&''] [''&''] {''A1''} []
       = Some (Inl (Exception (''Invalid token '' @ [CHR 0x27] @ ''&'' @ [CHR 0x27] @ '' in '' @ ''A1'')),
               sheet [[''A1'']] [(''A1'', [''&''])] [], {''A1''})"
    by blast
  from a b pa pb ea eb show ?thesis by blast
qed

text \<open>
  Claim C10 as stated fails at the token \<^verbatim>\<open>.5\<close>: it has no digit before the dot, so it
  is not in the grammar of the specification, and yet it is pushed as a float and the run
  on that cell succeeds. The repository's test of decimals has such a token, \<^verbatim>\<open>.1\<close>.
\<close>

theorem numeral_token_counterexample:
  "\<not> specified_numeral ''.5'' \<and> ''.5'' \<notin> {''+'', ''-'', ''*'', ''/''}
   \<and> isCellReference ''.5'' = Inr False
   \<and> evaluateDFS_loop 0 (sheet [[''A1'']] [(''A1'', [''.5''])] []) ''A1'' [''.5''] [''.5''] {''A1''} []
       = Some (Inr [PFloat (1 / 2)], sheet [[''A1'']] [(''A1'', [''.5''])] [], {''A1''})
   \<and> main some_repr 0 ''.5'' = Some (Inr (some_repr (PFloat (1 / 2)) @ [CHR 0x0A]))"
proof -
  have "\<not> specified_numeral ''.5''"
    using specified_numeral_head[of "''.5''"] by (auto simp: py_isdecimal_def)
  moreover have "''.5'' \<notin> {''+'', ''-'', ''*'', ''/''}" "isCellReference ''.5'' = Inr False"
    "evaluateDFS_loop 0 (sheet [[''A1'']] [(''A1'', [''.5''])] []) ''A1'' [''.5''] [''.5''] {''A1''} []
       = Some (Inr [PFloat (1 / 2)], sheet [[''A1'']] [(''A1'', [''.5''])] [], {''A1''})"
    "main some_repr 0 ''.5'' = Some (Inr (some_repr (PFloat (1 / 2)) @ [CHR 0x0A]))"
    by (simp_all add: run_simps cell_names)
  ultimately show ?thesis by blast
qed


end
